theory Spec2Isabelle
  imports Main
begin

section \<open>Session manager: constants and data\<close>

text \<open>
  The model follows \<^verbatim>\<open>client/components/SessionManager.tsx\<close>. The file holds two
  revisions of the component, which differ only in the foreground branch of the
  AppState listener:
  \<^item> the \<^verbatim>\<open>isPhotoOperationScreenRef\<close> revision (lines 1-217), whose flag is written by
    the screens through \<^verbatim>\<open>setIsPhotoOperationScreen\<close> and only read by the listener;
  \<^item> the \<^verbatim>\<open>photoOperationRef\<close> revision (lines 218-436), whose listener resets the
    flag when it finds it set.
  An earlier revision of the component (no flag, no background branch) has a listener of
  its own, modelled as \<open>appStateListener_idle\<close>.
\<close>

definition IDLE_TIME :: nat where
  "IDLE_TIME = 2 * 60 * 1000"

definition COUNTDOWN_SECONDS :: int where
  "COUNTDOWN_SECONDS = 10"

text \<open>The values React Native's \<^verbatim>\<open>AppState\<close> delivers to a change listener.\<close>

datatype AppStateStatus = Active | Background | Inactive | Unknown | Extension

datatype revision = ScreenRef | OperationRef

text \<open>
  Calls the component makes on its collaborators, in the order they are made: the React
  state setters \<^verbatim>\<open>setShowModal\<close> and \<^verbatim>\<open>setAuthenticated\<close>, the navigation dispatch and
  the haptics.
\<close>

datatype effect =
    ModalSet bool
  | AuthSet bool
  | Navigated string
  | ImpactMedium
  | NotifyError
  | NotifySuccess

text \<open>
  One-shot \<^verbatim>\<open>setTimeout\<close> callbacks that no ref keeps a handle of:
  the two nested callbacks of \<^verbatim>\<open>safeLogout\<close>, the callback of \<^verbatim>\<open>handleStay\<close> (which
  calls the \<^verbatim>\<open>resetIdleTimer\<close> closure of the render that created it, so it carries
  that render's \<^verbatim>\<open>isAuthenticated\<close> and \<^verbatim>\<open>timeoutDisabled\<close>), the delayed flag
  reset of the screens' effect cleanup, and an idle timeout whose handle has been
  overwritten in \<^verbatim>\<open>idleTimer.current\<close> while it was live: \<^verbatim>\<open>clearTimeout\<close> can no
  longer reach it, and it fires when it is due.
\<close>

datatype task =
    LogoutClearAuth
  | LogoutNavigate
  | StayReset bool bool
  | FlagReset
  | LostIdleTimeout

text \<open>
  The state the component reads and writes. \<open>idleTimer\<close> and \<open>countdownTimer\<close> stand for
  the refs of the same names: \<open>Some d\<close> says that the timer the ref points to is live and
  fires in \<open>d\<close> milliseconds, \<open>None\<close> that the ref is null or points to a timer that has
  fired or been cleared. Assigning a new timeout to \<open>idleTimer\<close> does not cancel the one
  it pointed to: only \<^verbatim>\<open>clearTimeout\<close> does (see \<open>setIdleTimeout\<close>). \<open>photoOperationRef\<close> is the module-level flag
  (\<^verbatim>\<open>photoOperationRef.current\<close>, in the other revision
  \<^verbatim>\<open>isPhotoOperationScreenRef.current\<close>). \<open>pending\<close> lists the one-shot timeouts in
  flight, oldest first, each with the milliseconds left.
\<close>

record session =
  isAuthenticated :: bool
  hasPin :: bool
  timeoutDisabled :: bool
  photoOperationRef :: bool
  idleTimer :: "nat option"
  countdownTimer :: "nat option"
  showModal :: bool
  countdown :: int
  pending :: "(nat \<times> task) list"
  trace :: "effect list"

section \<open>Setters\<close>

definition call :: "effect \<Rightarrow> session \<Rightarrow> session" where
  "call e s = s\<lparr>trace := trace s @ [e]\<rparr>"

definition setTimeout :: "task \<Rightarrow> nat \<Rightarrow> session \<Rightarrow> session" where
  "setTimeout t d s = s\<lparr>pending := pending s @ [(d, t)]\<rparr>"

definition setShowModal :: "bool \<Rightarrow> session \<Rightarrow> session" where
  "setShowModal v s = call (ModalSet v) (s\<lparr>showModal := v\<rparr>)"

definition setPhotoOperationInProgress :: "bool \<Rightarrow> session \<Rightarrow> session" where
  "setPhotoOperationInProgress v s = s\<lparr>photoOperationRef := v\<rparr>"

definition setIsPhotoOperationScreen :: "bool \<Rightarrow> session \<Rightarrow> session" where
  "setIsPhotoOperationScreen v s = s\<lparr>photoOperationRef := v\<rparr>"

text \<open>\<^verbatim>\<open>if (idleTimer.current) clearTimeout(idleTimer.current)\<close> and its interval twin.\<close>

definition clearIdleTimer :: "session \<Rightarrow> session" where
  "clearIdleTimer s = s\<lparr>idleTimer := None\<rparr>"

definition clearCountdownTimer :: "session \<Rightarrow> session" where
  "clearCountdownTimer s = s\<lparr>countdownTimer := None\<rparr>"

section \<open>The callbacks of SessionManager\<close>

definition safeLogout :: "session \<Rightarrow> session" where
  "safeLogout s = setTimeout LogoutClearAuth 0 (setShowModal False s)"

definition startCountdown :: "session \<Rightarrow> session" where
  "startCountdown s = s\<lparr>countdown := COUNTDOWN_SECONDS, countdownTimer := Some 1000\<rparr>"

text \<open>The updater the interval passes to \<^verbatim>\<open>setCountdown\<close>, with its side effects.\<close>

definition countdownTick :: "session \<Rightarrow> session" where
  "countdownTick s =
     (let prev = countdown s;
          s1 = (if prev = 2 then call ImpactMedium s else s);
          s2 = (if prev \<le> 1
                then safeLogout (call NotifyError (clearCountdownTimer s1))
                else s1)
      in s2\<lparr>countdown := prev - 1\<rparr>)"

text \<open>
  \<^verbatim>\<open>idleTimer.current = setTimeout(..., IDLE_TIME)\<close>: the ref takes the handle of the
  new timeout. A timeout the ref still pointed to is not cancelled by the assignment; it
  stays in flight, the oldest of the timeouts without a handle.
\<close>

definition setIdleTimeout :: "session \<Rightarrow> session" where
  "setIdleTimeout s =
     (case idleTimer s of
        None \<Rightarrow> s
      | Some d \<Rightarrow> s\<lparr>pending := (d, LostIdleTimeout) # pending s\<rparr>)
     \<lparr>idleTimer := Some IDLE_TIME\<rparr>"

text \<open>
  \<^verbatim>\<open>resetIdleTimer\<close> is a \<^verbatim>\<open>useCallback\<close> closure over \<^verbatim>\<open>isAuthenticated\<close> and
  \<^verbatim>\<open>timeoutDisabled\<close>; the two values it closed over are its first two arguments.
\<close>

definition resetIdleTimer :: "bool \<Rightarrow> bool \<Rightarrow> session \<Rightarrow> session" where
  "resetIdleTimer auth disabled s =
     (if \<not> auth \<or> disabled then s
      else setIdleTimeout (clearIdleTimer s))"

text \<open>The callback of the idle timeout.\<close>

definition idleTimeout :: "session \<Rightarrow> session" where
  "idleTimeout s = startCountdown (setShowModal True s)"

definition handleUserInteraction :: "session \<Rightarrow> session" where
  "handleUserInteraction s =
     (if \<not> isAuthenticated s \<or> timeoutDisabled s then s
      else if \<not> showModal s
           then resetIdleTimer (isAuthenticated s) (timeoutDisabled s) s
           else s)"

definition handleStay :: "session \<Rightarrow> session" where
  "handleStay s =
     setTimeout (StayReset (isAuthenticated s) (timeoutDisabled s)) 50
       (clearCountdownTimer (setShowModal False s))"

text \<open>
  The body of the listener registered with \<^verbatim>\<open>AppState.addEventListener\<close>, in the two
  revisions with a flag.
\<close>

definition appStateListener :: "revision \<Rightarrow> AppStateStatus \<Rightarrow> session \<Rightarrow> session" where
  "appStateListener r st s =
     (if st = Background
      then setShowModal False (clearCountdownTimer (clearIdleTimer s))
      else if st = Active
      then (if photoOperationRef s
            then (case r of
                    ScreenRef \<Rightarrow> s
                  | OperationRef \<Rightarrow> s\<lparr>photoOperationRef := False\<rparr>)
            else safeLogout s)
      else s)"

text \<open>
  The effect that registers the listener returns before subscribing when
  \<^verbatim>\<open>isAuthenticated\<close> is false and is re-run whenever that value changes, so an event
  reaches the listener only in an authenticated session.
\<close>

definition onAppStateChange :: "revision \<Rightarrow> AppStateStatus \<Rightarrow> session \<Rightarrow> session" where
  "onAppStateChange r st s = (if \<not> isAuthenticated s then s else appStateListener r st s)"

text \<open>
  The listener of the earlier revision: subscribed whatever \<^verbatim>\<open>isAuthenticated\<close> is,
  it only re-arms the idle timer on \<^verbatim>\<open>"active"\<close>.
\<close>

definition appStateListener_idle :: "AppStateStatus \<Rightarrow> session \<Rightarrow> session" where
  "appStateListener_idle st s =
     (if st = Active then resetIdleTimer (isAuthenticated s) (timeoutDisabled s) s else s)"

text \<open>
  The effect "start timer when logged in", with dependencies \<^verbatim>\<open>isAuthenticated\<close>,
  \<^verbatim>\<open>timeoutDisabled\<close> and \<^verbatim>\<open>resetIdleTimer\<close>: its body, and the cleanup it returns
  when it ran authenticated.
\<close>

definition startTimerEffect :: "session \<Rightarrow> session" where
  "startTimerEffect s =
     (if \<not> isAuthenticated s then clearCountdownTimer (clearIdleTimer s)
      else resetIdleTimer (isAuthenticated s) (timeoutDisabled s) s)"

definition startTimerCleanup :: "bool \<Rightarrow> session \<Rightarrow> session" where
  "startTimerCleanup wasAuth s =
     (if wasAuth then clearCountdownTimer (clearIdleTimer s) else s)"

text \<open>
  \<^verbatim>\<open>setAuthenticated\<close> and \<^verbatim>\<open>setTimeoutDisabled\<close> of the application context. When the
  value changes, React re-renders the component, runs the cleanup of the effect's last
  run and then the effect again; when it does not, no effect runs.
\<close>

definition setAuthenticated :: "bool \<Rightarrow> session \<Rightarrow> session" where
  "setAuthenticated v s =
     (let s1 = call (AuthSet v) s
      in if isAuthenticated s = v then s1
         else startTimerEffect
                ((startTimerCleanup (isAuthenticated s) s1)\<lparr>isAuthenticated := v\<rparr>))"

definition setTimeoutDisabled :: "bool \<Rightarrow> session \<Rightarrow> session" where
  "setTimeoutDisabled v s =
     (if timeoutDisabled s = v then s
      else startTimerEffect
             ((startTimerCleanup (isAuthenticated s) s)\<lparr>timeoutDisabled := v\<rparr>))"

definition setHasPin :: "bool \<Rightarrow> session \<Rightarrow> session" where
  "setHasPin v s = s\<lparr>hasPin := v\<rparr>"

section \<open>Timers and the virtual clock\<close>

fun runTask :: "task \<Rightarrow> session \<Rightarrow> session" where
  "runTask LogoutClearAuth s = setTimeout LogoutNavigate 150 (setAuthenticated False s)"
| "runTask LogoutNavigate s = call (Navigated ''Pin'') s"
| "runTask (StayReset auth disabled) s = resetIdleTimer auth disabled s"
| "runTask FlagReset s = setIsPhotoOperationScreen False s"
| "runTask LostIdleTimeout s = idleTimeout s"

text \<open>The first one-shot timeout that is due, and the list without it.\<close>

fun dueTask :: "(nat \<times> task) list \<Rightarrow> (task \<times> (nat \<times> task) list) option" where
  "dueTask [] = None"
| "dueTask ((d, t) # ps) =
     (if d = 0 then Some (t, ps)
      else (case dueTask ps of
              None \<Rightarrow> None
            | Some (t', rest) \<Rightarrow> Some (t', (d, t) # rest)))"

text \<open>
  How many callbacks are due, the interval counted twice because its tick can set a
  zero-delay timeout: the measure that shows that \<open>drain\<close> terminates.
\<close>

definition dueWeight :: "session \<Rightarrow> nat" where
  "dueWeight s =
     length (filter (\<lambda>p. fst p = 0) (pending s))
     + (if idleTimer s = Some 0 then 1 else 0)
     + (if countdownTimer s = Some 0 then 2 else 0)"

text \<open>
  Run every callback that is due, one per scheduling turn, until none is. Timers due at
  the same instant fire oldest first: the idle timeout (set \<open>IDLE_TIME\<close> before it is
  due), then the countdown interval (re-armed 1000 ms before), then the one-shot
  timeouts in the order they were set (each set at most 500 ms before), an idle
  timeout that lost its handle at their head.
\<close>

function drain :: "session \<Rightarrow> session" where
  "drain s =
     (if idleTimer s = Some 0 then drain (idleTimeout (s\<lparr>idleTimer := None\<rparr>))
      else if countdownTimer s = Some 0
      then drain (countdownTick (s\<lparr>countdownTimer := Some 1000\<rparr>))
      else (case dueTask (pending s) of
              None \<Rightarrow> s
            | Some (t, rest) \<Rightarrow> drain (runTask t (s\<lparr>pending := rest\<rparr>))))"
  by pat_completeness auto
termination
proof -
  have due: "Suc (length (filter (\<lambda>p. fst p = 0) rest)) = length (filter (\<lambda>p. fst p = 0) ps)"
    if "dueTask ps = Some (t, rest)" for ps t rest
    using that by (induction ps arbitrary: rest) (auto split: if_splits option.splits)
  have runs: "dueWeight (runTask t s) \<le> dueWeight s" for t s
    by (cases t)
       (auto simp: dueWeight_def setTimeout_def setAuthenticated_def call_def Let_def
          startTimerEffect_def startTimerCleanup_def clearIdleTimer_def
          clearCountdownTimer_def resetIdleTimer_def setIdleTimeout_def IDLE_TIME_def
          setIsPhotoOperationScreen_def idleTimeout_def startCountdown_def
          setShowModal_def)
  show ?thesis
  proof (relation "measure dueWeight")
    show "wf (measure dueWeight)" by simp
  next
    fix s :: session
    assume "idleTimer s = Some 0"
    then show "(idleTimeout (s\<lparr>idleTimer := None\<rparr>), s) \<in> measure dueWeight"
      by (simp add: dueWeight_def idleTimeout_def startCountdown_def setShowModal_def call_def)
  next
    fix s :: session
    assume "idleTimer s \<noteq> Some 0" "countdownTimer s = Some 0"
    then show "(countdownTick (s\<lparr>countdownTimer := Some 1000\<rparr>), s) \<in> measure dueWeight"
      by (simp add: dueWeight_def countdownTick_def Let_def safeLogout_def setTimeout_def
            setShowModal_def call_def clearCountdownTimer_def)
  next
    fix s :: session and x2 t rest
    assume a: "idleTimer s \<noteq> Some 0" "countdownTimer s \<noteq> Some 0"
      "dueTask (pending s) = Some x2" "(t, rest) = x2"
    then have d: "dueTask (pending s) = Some (t, rest)" by simp
    have "dueWeight (runTask t (s\<lparr>pending := rest\<rparr>)) \<le> dueWeight (s\<lparr>pending := rest\<rparr>)"
      by (rule runs)
    also have "dueWeight (s\<lparr>pending := rest\<rparr>) < dueWeight s"
      using due [OF d] by (simp add: dueWeight_def)
    finally show "(runTask t (s\<lparr>pending := rest\<rparr>), s) \<in> measure dueWeight"
      by simp
  qed
qed

text \<open>One millisecond passes: every live timer is one millisecond closer.\<close>

definition advance1 :: "session \<Rightarrow> session" where
  "advance1 s =
     s\<lparr>idleTimer := map_option (\<lambda>d. d - 1) (idleTimer s),
       countdownTimer := map_option (\<lambda>d. d - 1) (countdownTimer s),
       pending := map (\<lambda>p. (fst p - 1, snd p)) (pending s)\<rparr>"

text \<open>
  \<open>elapse n s\<close>: the state after \<open>n\<close> milliseconds in which nothing happens but timers
  firing, every callback due by then having run.
\<close>

primrec elapse :: "nat \<Rightarrow> session \<Rightarrow> session" where
  "elapse 0 s = drain s"
| "elapse (Suc n) s = elapse n (advance1 (drain s))"

section \<open>The application as a transition system\<close>

text \<open>The state of a freshly started application (\<^verbatim>\<open>AppProvider\<close>'s initial state).\<close>

definition initial :: session where
  "initial =
     \<lparr>isAuthenticated = False, hasPin = False, timeoutDisabled = False,
      photoOperationRef = False, idleTimer = None, countdownTimer = None,
      showModal = False, countdown = COUNTDOWN_SECONDS, pending = [], trace = []\<rparr>"

text \<open>
  What can happen to a running session: the operating system reports a visibility
  change, the user presses somewhere in the application, the user presses
  "I'm Still Here" (the button is rendered only while the modal is visible), time
  passes, a photo screen mounts or unmounts, or the setters are called.
\<close>

datatype event =
    AppStateChange AppStateStatus
  | Press
  | PressStay
  | Elapse nat
  | ScreenMount
  | ScreenUnmount
  | SetFlag bool
  | SetAuth bool
  | SetDisabled bool

text \<open>
  The effect of the two photo screens (\<^verbatim>\<open>MemberDetailScreen\<close>, \<^verbatim>\<open>RegisterScreen\<close>):
  it sets the flag when the screen mounts, and its cleanup, run at unmount, sets a
  timeout of 500 ms that resets it.
\<close>

definition screenMount :: "session \<Rightarrow> session" where
  "screenMount s = setIsPhotoOperationScreen True s"

definition screenUnmount :: "session \<Rightarrow> session" where
  "screenUnmount s = setTimeout FlagReset 500 s"

fun step :: "revision \<Rightarrow> event \<Rightarrow> session \<Rightarrow> session" where
  "step r (AppStateChange st) s = onAppStateChange r st s"
| "step r Press s = handleUserInteraction s"
| "step r PressStay s = (if showModal s then handleStay s else s)"
| "step r (Elapse n) s = elapse n s"
| "step r ScreenMount s = screenMount s"
| "step r ScreenUnmount s = screenUnmount s"
| "step r (SetFlag v) s = setPhotoOperationInProgress v s"
| "step r (SetAuth v) s = setAuthenticated v s"
| "step r (SetDisabled v) s = setTimeoutDisabled v s"

fun run :: "revision \<Rightarrow> event list \<Rightarrow> session \<Rightarrow> session" where
  "run r [] s = s"
| "run r (e # es) s = run r es (step r e s)"

section \<open>The photo flow of RegisterScreen\<close>

text \<open>
  \<^verbatim>\<open>pickImage\<close> and \<^verbatim>\<open>takePhoto\<close> of \<^verbatim>\<open>RegisterScreen\<close>. The picker is an external
  application: what it returns is an argument. The screen keeps the chosen photo in its
  own state; the session is passed along to show what the flow does to it.
\<close>

datatype pickerResult = Canceled | Assets "string list"

definition usePickerResult :: "pickerResult \<Rightarrow> string \<Rightarrow> string" where
  "usePickerResult res photo =
     (case res of
        Canceled \<Rightarrow> photo
      | Assets [] \<Rightarrow> photo
      | Assets (uri # _) \<Rightarrow> uri)"

definition pickImage :: "pickerResult \<Rightarrow> string \<times> session \<Rightarrow> string \<times> session" where
  "pickImage res ps = (usePickerResult res (fst ps), snd ps)"

definition takePhoto :: "bool \<Rightarrow> pickerResult \<Rightarrow> string \<times> session \<Rightarrow> string \<times> session" where
  "takePhoto granted res ps =
     (if \<not> granted then ps else (usePickerResult res (fst ps), snd ps))"

section \<open>PinScreen\<close>

record pinScreen =
  pin :: string
  confirmPin :: string
  isCreating :: bool
  isConfirming :: bool
  error :: string
  storedPin :: "string option"

text \<open>
  \<^verbatim>\<open>handleSubmit\<close>. Storing a new PIN can fail (the \<^verbatim>\<open>try\<close> around the secure store);
  whether it succeeds is the first argument. The function never throws: every branch
  ends in new screen state.
\<close>

definition handleSubmit :: "bool \<Rightarrow> pinScreen \<times> session \<Rightarrow> pinScreen \<times> session" where
  "handleSubmit stored ps =
     (let p = fst ps; s = snd ps in
      if isCreating p then
        (if length (pin p) \<noteq> 4
         then (p\<lparr>error := ''PIN must be 4 digits''\<rparr>, call NotifyError s)
         else if \<not> isConfirming p
         then (p\<lparr>isConfirming := True\<rparr>, s)
         else if pin p \<noteq> confirmPin p
         then (p\<lparr>error := ''PINs do not match'', confirmPin := []\<rparr>, call NotifyError s)
         else if stored
         then (p, call NotifySuccess (setAuthenticated True (setHasPin True s)))
         else (p\<lparr>error := ''Failed to save PIN''\<rparr>, s))
      else
        (if Some (pin p) = storedPin p
         then (p, call NotifySuccess (setAuthenticated True s))
         else (p\<lparr>error := ''Incorrect PIN'', pin := []\<rparr>, call NotifyError s)))"

section \<open>Auxiliary notions and sample states\<close>

text \<open>
  Auxiliary notions for reasoning about \<open>elapse\<close>: \<open>advance n\<close> moves every timer
  \<open>n\<close> milliseconds closer without running anything, and \<open>noneBefore n s\<close> says that
  no timer of \<open>s\<close> is due in less than \<open>n\<close> milliseconds.
\<close>

definition advance :: "nat \<Rightarrow> session \<Rightarrow> session" where
  "advance n s =
     s\<lparr>idleTimer := map_option (\<lambda>d. d - n) (idleTimer s),
       countdownTimer := map_option (\<lambda>d. d - n) (countdownTimer s),
       pending := map (\<lambda>p. (fst p - n, snd p)) (pending s)\<rparr>"

definition noneBefore :: "nat \<Rightarrow> session \<Rightarrow> bool" where
  "noneBefore n s \<longleftrightarrow>
     (\<forall>d. idleTimer s = Some d \<longrightarrow> n \<le> d) \<and>
     (\<forall>d. countdownTimer s = Some d \<longrightarrow> n \<le> d) \<and>
     (\<forall>p \<in> set (pending s). n \<le> fst p)"

text \<open>A session right after the PIN screen has called \<^verbatim>\<open>setAuthenticated(true)\<close>.\<close>

definition loggedIn :: session where
  "loggedIn = setAuthenticated True initial"

text \<open>A session whose countdown is running: five seconds left, the modal showing.\<close>

definition counting :: session where
  "counting = loggedIn\<lparr>idleTimer := None, countdownTimer := Some 400, showModal := True,
                       countdown := 5\<rparr>"

text \<open>
  The state one scheduling turn after \<open>safeLogout\<close> in an authenticated session with
  nothing else pending: the first nested callback has run.
\<close>

definition afterClearAuth :: "session \<Rightarrow> session" where
  "afterClearAuth s =
     s\<lparr>showModal := False, isAuthenticated := False, idleTimer := None,
       countdownTimer := None, trace := trace s @ [ModalSet False, AuthSet False],
       pending := [(150, LogoutNavigate)]\<rparr>"

text \<open>The PIN screen with a stored PIN and another one entered.\<close>

definition wrongPin :: pinScreen where
  "wrongPin = \<lparr>pin = ''1234'', confirmPin = [], isCreating = False, isConfirming = False,
               error = [], storedPin = Some ''4321''\<rparr>"

text \<open>The callbacks of the one-shot timeouts in flight.\<close>

definition tasks :: "session \<Rightarrow> task set" where
  "tasks s = snd ` set (pending s)"

text \<open>An authenticated session with the flag set.\<close>

definition flagged :: session where
  "flagged = loggedIn\<lparr>photoOperationRef := True\<rparr>"

text \<open>
  The countdown \<open>k\<close> ticks after the idle timeout fired in \<open>s\<close>, the next tick a full
  second away.
\<close>

definition ticked :: "nat \<Rightarrow> session \<Rightarrow> session" where
  "ticked k s =
     s\<lparr>showModal := True, countdown := COUNTDOWN_SECONDS - int k,
       countdownTimer := Some 1000,
       trace := trace s @ ModalSet True # (if k = 9 then [ImpactMedium] else [])\<rparr>"

text \<open>The state in which the countdown that started in \<open>s\<close> ends.\<close>

definition expired :: "session \<Rightarrow> session" where
  "expired s =
     s\<lparr>isAuthenticated := False, showModal := False, countdown := 0,
       idleTimer := None, countdownTimer := None, pending := [(150, LogoutNavigate)],
       trace := trace s @ [ModalSet True, ImpactMedium, NotifyError, ModalSet False,
                           AuthSet False]\<rparr>"

text \<open>The session at the instant its idle timeout fires.\<close>

definition idleFired :: session where
  "idleFired = loggedIn\<lparr>idleTimer := None\<rparr>"





section \<open>Properties of the clock\<close>

declare drain.simps [simp del]

lemma dueTask_None_iff: "dueTask ps = None \<longleftrightarrow> (\<forall>p \<in> set ps. fst p \<noteq> 0)"
  by (induction ps) (auto split: option.splits if_splits)

lemma dueTask_Some_set:
  "dueTask ps = Some (t, rest) \<Longrightarrow> set ps = insert (0, t) (set rest)"
  by (induction ps arbitrary: rest) (auto split: if_splits option.splits)

lemma drain_quiet:
  "idleTimer s \<noteq> Some 0 \<Longrightarrow> countdownTimer s \<noteq> Some 0 \<Longrightarrow> dueTask (pending s) = None
     \<Longrightarrow> drain s = s"
  by (subst drain.simps) simp

lemma advance_0: "advance 0 s = s"
  by (simp add: advance_def option.map_ident)

lemma advance_Suc: "advance n (advance1 s) = advance (Suc n) s"
  by (simp add: advance_def advance1_def option.map_comp comp_def)

lemma noneBefore_Suc_drain: "noneBefore (Suc n) s \<Longrightarrow> drain s = s"
  by (rule drain_quiet) (auto simp: noneBefore_def dueTask_None_iff)

lemma noneBefore_advance1: "noneBefore (Suc n) s \<Longrightarrow> noneBefore n (advance1 s)"
  by (cases "idleTimer s"; cases "countdownTimer s")
     (auto simp: noneBefore_def advance1_def)

lemma elapse_noneBefore: "noneBefore n s \<Longrightarrow> elapse n s = drain (advance n s)"
proof (induction n arbitrary: s)
  case 0
  then show ?case by (simp add: advance_0)
next
  case (Suc n)
  have "elapse (Suc n) s = elapse n (advance1 s)"
    by (simp add: noneBefore_Suc_drain [OF Suc.prems])
  also have "\<dots> = drain (advance n (advance1 s))"
    by (rule Suc.IH) (rule noneBefore_advance1 [OF Suc.prems])
  finally show ?case by (simp add: advance_Suc)
qed

lemma drain_drain: "drain (drain s) = drain s"
proof (induction s rule: drain.induct)
  case (1 s)
  show ?case
  proof (cases "idleTimer s = Some 0")
    case True
    then show ?thesis using "1.IH"(1) by (subst (2 3) drain.simps) simp
  next
    case i: False
    show ?thesis
    proof (cases "countdownTimer s = Some 0")
      case True
      then show ?thesis using i "1.IH"(2) by (subst (2 3) drain.simps) simp
    next
      case c: False
      show ?thesis
      proof (cases "dueTask (pending s)")
        case None
        then show ?thesis using i c by (simp add: drain_quiet)
      next
        case (Some a)
        then obtain t rest where a: "a = (t, rest)" by (cases a)
        show ?thesis using i c Some a "1.IH"(3) [OF i c Some a [symmetric]]
          by (subst (2 3) drain.simps) simp
      qed
    qed
  qed
qed

lemma elapse_drain: "elapse n (drain s) = elapse n s"
  by (cases n) (simp_all add: drain_drain)

lemma elapse_add: "elapse (a + b) s = elapse b (elapse a s)"
proof (induction a arbitrary: s)
  case 0
  then show ?case by (simp add: elapse_drain)
next
  case (Suc a)
  then show ?case by simp
qed

section \<open>What the callbacks do, as equations\<close>

text \<open>
  Because \<open>resetIdleTimer\<close> clears the timeout the ref points to before it sets the
  new one, it leaves no timeout behind.
\<close>

lemma resetIdleTimer_eq:
  "resetIdleTimer auth disabled s =
     (if \<not> auth \<or> disabled then s else s\<lparr>idleTimer := Some IDLE_TIME\<rparr>)"
  by (simp add: resetIdleTimer_def setIdleTimeout_def clearIdleTimer_def)

lemma idleTimeout_eq:
  "idleTimeout s =
     s\<lparr>showModal := True, countdown := COUNTDOWN_SECONDS, countdownTimer := Some 1000,
       trace := trace s @ [ModalSet True]\<rparr>"
  by (simp add: idleTimeout_def startCountdown_def setShowModal_def call_def)

lemma background_eq:
  "onAppStateChange r Background s =
     (if isAuthenticated s
      then s\<lparr>idleTimer := None, countdownTimer := None, showModal := False,
             trace := trace s @ [ModalSet False]\<rparr>
      else s)"
  by (simp add: onAppStateChange_def appStateListener_def setShowModal_def call_def
        clearIdleTimer_def clearCountdownTimer_def)

lemma safeLogout_eq:
  "safeLogout s =
     s\<lparr>showModal := False, trace := trace s @ [ModalSet False],
       pending := pending s @ [(0, LogoutClearAuth)]\<rparr>"
  by (simp add: safeLogout_def setTimeout_def setShowModal_def call_def)

lemma active_eq:
  "onAppStateChange r Active s =
     (if \<not> isAuthenticated s then s
      else if photoOperationRef s
      then (case r of ScreenRef \<Rightarrow> s | OperationRef \<Rightarrow> s\<lparr>photoOperationRef := False\<rparr>)
      else safeLogout s)"
  by (simp add: onAppStateChange_def appStateListener_def)

lemma clearAuth_eq:
  "runTask LogoutClearAuth s =
     (if isAuthenticated s
      then s\<lparr>isAuthenticated := False, idleTimer := None, countdownTimer := None,
             trace := trace s @ [AuthSet False],
             pending := pending s @ [(150, LogoutNavigate)]\<rparr>
      else s\<lparr>trace := trace s @ [AuthSet False],
             pending := pending s @ [(150, LogoutNavigate)]\<rparr>)"
  by (simp add: setTimeout_def setAuthenticated_def call_def Let_def startTimerEffect_def
        startTimerCleanup_def clearIdleTimer_def clearCountdownTimer_def)

lemma loggedIn_eq:
  "loggedIn =
     \<lparr>isAuthenticated = True, hasPin = False, timeoutDisabled = False,
      photoOperationRef = False, idleTimer = Some IDLE_TIME, countdownTimer = None,
      showModal = False, countdown = COUNTDOWN_SECONDS, pending = [],
      trace = [AuthSet True]\<rparr>"
  by (simp add: loggedIn_def initial_def setAuthenticated_def call_def Let_def
        startTimerEffect_def startTimerCleanup_def resetIdleTimer_eq clearIdleTimer_def)

section \<open>Visibility transitions\<close>

text \<open>
  C7 (unauthenticated no-op). A visibility transition delivered while
  \<open>isAuthenticated\<close> is false changes nothing: the whole state, timers, pending logout
  callbacks, authentication and call trace included, is what it was. This holds for the
  two revisions whose effect does not subscribe the listener in an unauthenticated
  session and for the listener of the earlier revision, which is always subscribed
  but only calls \<open>resetIdleTimer\<close>, and that returns at once.
\<close>

theorem unauthenticated_noop:
  "\<not> isAuthenticated s \<Longrightarrow>
     onAppStateChange r st s = s \<and> appStateListener_idle st s = s"
  by (simp add: onAppStateChange_def appStateListener_idle_def resetIdleTimer_eq)

theorem unauthenticated_noop_witness:
  "\<not> isAuthenticated initial \<and>
   onAppStateChange OperationRef Active initial = initial \<and>
   appStateListener_idle Active initial = initial"
  using unauthenticated_noop [of initial OperationRef Active]
  by (simp add: initial_def)



section \<open>Forced logout\<close>

lemma elapse_idle:
  "idleTimer s = None \<Longrightarrow> countdownTimer s = None \<Longrightarrow> pending s = [] \<Longrightarrow> elapse n s = s"
proof -
  assume a: "idleTimer s = None" "countdownTimer s = None" "pending s = []"
  then have "noneBefore n s" by (simp add: noneBefore_def)
  then have "elapse n s = drain (advance n s)" by (rule elapse_noneBefore)
  also have "advance n s = s" using a by (simp add: advance_def)
  also have "drain s = s" using a by (simp add: drain_quiet)
  finally show ?thesis .
qed

text \<open>One pending timeout and no other timer: nothing happens until it is due.\<close>

lemma elapse_single_wait:
  assumes "idleTimer s = None" "countdownTimer s = None" "pending s = [(d, t)]" "n < d"
  shows "elapse n s = s\<lparr>pending := [(d - n, t)]\<rparr>"
proof -
  have "noneBefore n s" using assms by (simp add: noneBefore_def)
  then have "elapse n s = drain (advance n s)" by (rule elapse_noneBefore)
  also have "advance n s = s\<lparr>pending := [(d - n, t)]\<rparr>" using assms by (simp add: advance_def)
  also have "drain (s\<lparr>pending := [(d - n, t)]\<rparr>) = s\<lparr>pending := [(d - n, t)]\<rparr>"
    using assms by (simp add: drain_quiet)
  finally show ?thesis .
qed

lemma elapse_single_due:
  assumes "idleTimer s = None" "countdownTimer s = None" "pending s = [(d, t)]"
  shows "elapse d s = drain (runTask t (s\<lparr>pending := []\<rparr>))"
proof -
  have "noneBefore d s" using assms by (simp add: noneBefore_def)
  then have "elapse d s = drain (advance d s)" by (rule elapse_noneBefore)
  also have "advance d s = s\<lparr>pending := [(0, t)]\<rparr>" using assms by (simp add: advance_def)
  also have "drain (s\<lparr>pending := [(0, t)]\<rparr>) = drain (runTask t (s\<lparr>pending := []\<rparr>))"
    using assms by (subst drain.simps) simp
  finally show ?thesis .
qed

lemma drain_safeLogout:
  assumes "isAuthenticated s" "pending s = []" "idleTimer s \<noteq> Some 0"
    "countdownTimer s \<noteq> Some 0"
  shows "drain (safeLogout s) = afterClearAuth s"
proof -
  have "drain (safeLogout s) = drain (runTask LogoutClearAuth ((safeLogout s)\<lparr>pending := []\<rparr>))"
    using assms by (subst drain.simps) (simp add: safeLogout_eq)
  also have "runTask LogoutClearAuth ((safeLogout s)\<lparr>pending := []\<rparr>) = afterClearAuth s"
    using assms by (subst clearAuth_eq) (simp add: safeLogout_eq afterClearAuth_def)
  also have "drain (afterClearAuth s) = afterClearAuth s"
    by (simp add: drain_quiet afterClearAuth_def)
  finally show ?thesis .
qed

lemma logout_runs:
  assumes "isAuthenticated s" "pending s = []" "idleTimer s \<noteq> Some 0"
    "countdownTimer s \<noteq> Some 0"
  shows "n < 150 \<Longrightarrow>
           elapse n (safeLogout s) = (afterClearAuth s)\<lparr>pending := [(150 - n, LogoutNavigate)]\<rparr>"
    and "150 \<le> n \<Longrightarrow>
           elapse n (safeLogout s) =
             (afterClearAuth s)\<lparr>pending := [],
               trace := trace s @ [ModalSet False, AuthSet False, Navigated ''Pin'']\<rparr>"
proof -
  have e: "elapse m (safeLogout s) = elapse m (afterClearAuth s)" for m
    using elapse_drain [of m "safeLogout s"] drain_safeLogout [OF assms] by simp
  show "n < 150 \<Longrightarrow>
           elapse n (safeLogout s) = (afterClearAuth s)\<lparr>pending := [(150 - n, LogoutNavigate)]\<rparr>"
    by (simp add: e elapse_single_wait afterClearAuth_def)
  have d: "elapse 150 (afterClearAuth s) =
             (afterClearAuth s)\<lparr>pending := [],
               trace := trace s @ [ModalSet False, AuthSet False, Navigated ''Pin'']\<rparr>"
    by (subst elapse_single_due [where t = LogoutNavigate])
       (simp_all add: afterClearAuth_def call_def drain_quiet)
  show "elapse n (safeLogout s) =
             (afterClearAuth s)\<lparr>pending := [],
               trace := trace s @ [ModalSet False, AuthSet False, Navigated ''Pin'']\<rparr>"
    if "150 \<le> n"
  proof -
    have "elapse n (safeLogout s) = elapse (150 + (n - 150)) (afterClearAuth s)"
      using that by (simp add: e)
    also have "\<dots> = elapse (n - 150) (elapse 150 (afterClearAuth s))"
      by (rule elapse_add)
    also have "\<dots> = elapse 150 (afterClearAuth s)"
      unfolding d by (rule elapse_idle) (simp_all add: afterClearAuth_def)
    finally show ?thesis by (simp add: d)
  qed
qed

text \<open>
  C6 (forced-logout sequencing). \<open>safeLogout\<close> hides the modal at once and leaves
  \<open>isAuthenticated\<close> as it is: it only sets a zero-delay timeout. That callback, run in a
  later scheduling turn, calls \<^verbatim>\<open>setAuthenticated(false)\<close> and sets the 150 ms timeout
  whose callback dispatches the navigation to \<^verbatim>\<open>"Pin"\<close>. On the clock: in an
  authenticated session with no other timeout pending and no timer due at that instant,
  the calls after \<open>safeLogout\<close> are, in this order, \<open>ModalSet False\<close>, \<open>AuthSet False\<close>
  and, from 150 ms on, \<open>Navigated ''Pin''\<close>.
\<close>

theorem forced_logout_sequencing:
  "showModal (safeLogout s) = False \<and>
   isAuthenticated (safeLogout s) = isAuthenticated s \<and>
   trace (safeLogout s) = trace s @ [ModalSet False] \<and>
   pending (safeLogout s) = pending s @ [(0, LogoutClearAuth)] \<and>
   \<not> isAuthenticated (runTask LogoutClearAuth s) \<and>
   trace (runTask LogoutClearAuth s) = trace s @ [AuthSet False] \<and>
   pending (runTask LogoutClearAuth s) = pending s @ [(150, LogoutNavigate)] \<and>
   runTask LogoutNavigate s = s\<lparr>trace := trace s @ [Navigated ''Pin'']\<rparr> \<and>
   (isAuthenticated s \<and> pending s = [] \<and> idleTimer s \<noteq> Some 0 \<and> countdownTimer s \<noteq> Some 0
      \<longrightarrow>
      (\<forall>n<150. \<not> isAuthenticated (elapse n (safeLogout s)) \<and>
         trace (elapse n (safeLogout s)) = trace s @ [ModalSet False, AuthSet False]) \<and>
      (\<forall>n\<ge>150. \<not> isAuthenticated (elapse n (safeLogout s)) \<and>
         trace (elapse n (safeLogout s))
           = trace s @ [ModalSet False, AuthSet False, Navigated ''Pin'']))"
proof -
  have sync: "showModal (safeLogout s) = False \<and>
      isAuthenticated (safeLogout s) = isAuthenticated s \<and>
      trace (safeLogout s) = trace s @ [ModalSet False] \<and>
      pending (safeLogout s) = pending s @ [(0, LogoutClearAuth)]"
    by (simp add: safeLogout_eq)
  have first: "\<not> isAuthenticated (runTask LogoutClearAuth s) \<and>
      trace (runTask LogoutClearAuth s) = trace s @ [AuthSet False] \<and>
      pending (runTask LogoutClearAuth s) = pending s @ [(150, LogoutNavigate)]"
    by (simp add: clearAuth_eq del: runTask.simps)
  have second: "runTask LogoutNavigate s = s\<lparr>trace := trace s @ [Navigated ''Pin'']\<rparr>"
    by (simp add: call_def)
  have clock: "(\<forall>n<150. \<not> isAuthenticated (elapse n (safeLogout s)) \<and>
         trace (elapse n (safeLogout s)) = trace s @ [ModalSet False, AuthSet False]) \<and>
      (\<forall>n\<ge>150. \<not> isAuthenticated (elapse n (safeLogout s)) \<and>
         trace (elapse n (safeLogout s))
           = trace s @ [ModalSet False, AuthSet False, Navigated ''Pin''])"
    if h: "isAuthenticated s" "pending s = []" "idleTimer s \<noteq> Some 0"
      "countdownTimer s \<noteq> Some 0"
    by (simp add: logout_runs [OF h] afterClearAuth_def)
  from sync first second clock show ?thesis by blast
qed

theorem forced_logout_sequencing_witness:
  "isAuthenticated loggedIn \<and> pending loggedIn = [] \<and>
   idleTimer loggedIn \<noteq> Some 0 \<and> countdownTimer loggedIn \<noteq> Some 0 \<and>
   trace (safeLogout loggedIn) = [AuthSet True, ModalSet False] \<and>
   isAuthenticated (safeLogout loggedIn) \<and>
   \<not> isAuthenticated (elapse 0 (safeLogout loggedIn)) \<and>
   trace (elapse 149 (safeLogout loggedIn)) = [AuthSet True, ModalSet False, AuthSet False] \<and>
   trace (elapse 150 (safeLogout loggedIn))
     = [AuthSet True, ModalSet False, AuthSet False, Navigated ''Pin'']"
proof -
  have h: "isAuthenticated loggedIn \<and> pending loggedIn = [] \<and>
      idleTimer loggedIn \<noteq> Some 0 \<and> countdownTimer loggedIn \<noteq> Some 0"
    by (simp add: loggedIn_eq IDLE_TIME_def)
  have t: "trace loggedIn = [AuthSet True]" by (simp add: loggedIn_eq)
  note th = forced_logout_sequencing [of loggedIn]
  from th h have before: "\<forall>n<150. \<not> isAuthenticated (elapse n (safeLogout loggedIn)) \<and>
      trace (elapse n (safeLogout loggedIn)) = trace loggedIn @ [ModalSet False, AuthSet False]"
    by blast
  from th h have after: "\<forall>n\<ge>150. \<not> isAuthenticated (elapse n (safeLogout loggedIn)) \<and>
      trace (elapse n (safeLogout loggedIn))
        = trace loggedIn @ [ModalSet False, AuthSet False, Navigated ''Pin'']"
    by blast
  from th have sync: "trace (safeLogout loggedIn) = trace loggedIn @ [ModalSet False]"
    "isAuthenticated (safeLogout loggedIn) = isAuthenticated loggedIn"
    by blast+
  from h t sync before [rule_format, of 0] before [rule_format, of 149]
    after [rule_format, of 150]
  show ?thesis by (simp del: elapse.simps)
qed

section \<open>The photo flag\<close>




section \<open>The PIN gate\<close>

text \<open>
  C8 (secret mismatch). In the verification branch of \<open>handleSubmit\<close> (no PIN is being
  created), when the entered PIN is not the stored one, the screen shows
  \<^verbatim>\<open>"Incorrect PIN"\<close>, the entered PIN is cleared, the error haptic is played and
  nothing else changes: \<open>isAuthenticated\<close> is what it was and no timer is armed. The
  outcome is the returned state; the function has no throwing branch.
\<close>

theorem secret_mismatch_recoverable:
  "\<not> isCreating p \<Longrightarrow> storedPin p \<noteq> Some (pin p) \<Longrightarrow>
     handleSubmit stored (p, s)
       = (p\<lparr>error := ''Incorrect PIN'', pin := []\<rparr>, call NotifyError s) \<and>
     isAuthenticated (snd (handleSubmit stored (p, s))) = isAuthenticated s \<and>
     idleTimer (snd (handleSubmit stored (p, s))) = idleTimer s"
  by (auto simp: handleSubmit_def Let_def call_def)

theorem secret_mismatch_recoverable_witness:
  "\<not> isCreating wrongPin \<and> storedPin wrongPin \<noteq> Some (pin wrongPin) \<and>
   error (fst (handleSubmit True (wrongPin, initial))) = ''Incorrect PIN'' \<and>
   pin (fst (handleSubmit True (wrongPin, initial))) = [] \<and>
   \<not> isAuthenticated (snd (handleSubmit True (wrongPin, initial)))"
proof -
  have h: "\<not> isCreating wrongPin" "storedPin wrongPin \<noteq> Some (pin wrongPin)"
    by (simp_all add: wrongPin_def)
  from secret_mismatch_recoverable [OF h, of True initial] h show ?thesis
    by (simp add: initial_def call_def)
qed

section \<open>What the passing of time preserves\<close>

lemma drain_preserves:
  assumes "P s"
    and "\<And>x. P x \<Longrightarrow> idleTimer x = Some 0 \<Longrightarrow> P (idleTimeout (x\<lparr>idleTimer := None\<rparr>))"
    and "\<And>x. P x \<Longrightarrow> countdownTimer x = Some 0
           \<Longrightarrow> P (countdownTick (x\<lparr>countdownTimer := Some 1000\<rparr>))"
    and "\<And>x t rest. P x \<Longrightarrow> dueTask (pending x) = Some (t, rest)
           \<Longrightarrow> P (runTask t (x\<lparr>pending := rest\<rparr>))"
  shows "P (drain s)"
  using assms(1)
proof (induction s rule: drain.induct)
  case (1 s)
  show ?case
  proof (cases "idleTimer s = Some 0")
    case True
    then show ?thesis
      using "1.IH"(1) [OF True assms(2) [OF "1.prems" True]]
      by (subst drain.simps) simp
  next
    case i: False
    show ?thesis
    proof (cases "countdownTimer s = Some 0")
      case True
      then show ?thesis
        using i "1.IH"(2) [OF i True assms(3) [OF "1.prems" True]]
        by (subst drain.simps) simp
    next
      case c: False
      show ?thesis
      proof (cases "dueTask (pending s)")
        case None
        then show ?thesis using i c "1.prems" by (simp add: drain_quiet)
      next
        case (Some a)
        then obtain t rest where a: "a = (t, rest)" by (cases a)
        have "P (runTask t (s\<lparr>pending := rest\<rparr>))"
          using assms(4) [OF "1.prems"] Some a by simp
        then show ?thesis
          using i c Some a "1.IH"(3) [OF i c Some a [symmetric]]
          by (subst drain.simps) simp
      qed
    qed
  qed
qed

lemma elapse_preserves:
  assumes "P s"
    and "\<And>x. P x \<Longrightarrow> idleTimer x = Some 0 \<Longrightarrow> P (idleTimeout (x\<lparr>idleTimer := None\<rparr>))"
    and "\<And>x. P x \<Longrightarrow> countdownTimer x = Some 0
           \<Longrightarrow> P (countdownTick (x\<lparr>countdownTimer := Some 1000\<rparr>))"
    and "\<And>x t rest. P x \<Longrightarrow> dueTask (pending x) = Some (t, rest)
           \<Longrightarrow> P (runTask t (x\<lparr>pending := rest\<rparr>))"
    and "\<And>x. P x \<Longrightarrow> P (advance1 x)"
  shows "P (elapse n s)"
  using assms(1)
proof (induction n arbitrary: s)
  case 0
  then show ?case by (simp add: drain_preserves [where P = P, OF _ assms(2,3,4)])
next
  case (Suc n)
  have "P (drain s)" by (rule drain_preserves [where P = P, OF Suc.prems assms(2,3,4)])
  then have "P (advance1 (drain s))" by (rule assms(5))
  then show ?case using Suc.IH by simp
qed

lemma tasks_advance1: "tasks (advance1 s) = tasks s"
  by (force simp: tasks_def advance1_def)

lemma dueTask_tasks:
  "dueTask (pending x) = Some (t, rest) \<Longrightarrow> tasks x = insert t (snd ` set rest)"
  by (simp add: tasks_def dueTask_Some_set)

lemma tasks_runTask:
  "tasks (runTask t x) \<subseteq> tasks x \<union> {LogoutNavigate}"
  by (cases t)
     (auto simp: tasks_def setTimeout_def setAuthenticated_def call_def Let_def
        startTimerEffect_def startTimerCleanup_def clearIdleTimer_def
        clearCountdownTimer_def resetIdleTimer_eq setIsPhotoOperationScreen_def
        idleTimeout_eq)

lemma tasks_countdownTick: "tasks (countdownTick x) \<subseteq> tasks x \<union> {LogoutClearAuth}"
  by (auto simp: tasks_def countdownTick_def Let_def safeLogout_eq call_def
        clearCountdownTimer_def)

lemma tasks_idleTimeout: "tasks (idleTimeout x) = tasks x"
  by (simp add: tasks_def idleTimeout_def startCountdown_def setShowModal_def call_def)

lemma flag_runTask: "t \<noteq> FlagReset \<Longrightarrow> photoOperationRef (runTask t x) = photoOperationRef x"
  by (cases t)
     (auto simp: setTimeout_def setAuthenticated_def call_def Let_def
        startTimerEffect_def startTimerCleanup_def clearIdleTimer_def
        clearCountdownTimer_def resetIdleTimer_eq idleTimeout_eq)

lemma flag_countdownTick: "photoOperationRef (countdownTick x) = photoOperationRef x"
  by (simp add: countdownTick_def Let_def safeLogout_eq call_def clearCountdownTimer_def)

lemma flag_idleTimeout: "photoOperationRef (idleTimeout x) = photoOperationRef x"
  by (simp add: idleTimeout_def startCountdown_def setShowModal_def call_def)

lemma elapse_flag:
  assumes "FlagReset \<notin> tasks s"
  shows "photoOperationRef (elapse n s) = photoOperationRef s \<and> FlagReset \<notin> tasks (elapse n s)"
proof (rule elapse_preserves
    [where P = "\<lambda>x. photoOperationRef x = photoOperationRef s \<and> FlagReset \<notin> tasks x"])
  show "photoOperationRef s = photoOperationRef s \<and> FlagReset \<notin> tasks s"
    using assms by simp
next
  fix x
  assume "photoOperationRef x = photoOperationRef s \<and> FlagReset \<notin> tasks x"
  then show "photoOperationRef (idleTimeout (x\<lparr>idleTimer := None\<rparr>)) = photoOperationRef s \<and>
      FlagReset \<notin> tasks (idleTimeout (x\<lparr>idleTimer := None\<rparr>))"
    by (simp add: flag_idleTimeout tasks_idleTimeout) (simp add: tasks_def)
next
  fix x
  assume a: "photoOperationRef x = photoOperationRef s \<and> FlagReset \<notin> tasks x"
  have "tasks (countdownTick (x\<lparr>countdownTimer := Some 1000\<rparr>))
          \<subseteq> tasks (x\<lparr>countdownTimer := Some 1000\<rparr>) \<union> {LogoutClearAuth}"
    by (rule tasks_countdownTick)
  with a show "photoOperationRef (countdownTick (x\<lparr>countdownTimer := Some 1000\<rparr>))
        = photoOperationRef s \<and>
      FlagReset \<notin> tasks (countdownTick (x\<lparr>countdownTimer := Some 1000\<rparr>))"
    by (auto simp: flag_countdownTick tasks_def)
next
  fix x t rest
  assume a: "photoOperationRef x = photoOperationRef s \<and> FlagReset \<notin> tasks x"
    and d: "dueTask (pending x) = Some (t, rest)"
  from dueTask_tasks [OF d] a have t: "t \<noteq> FlagReset" and r: "FlagReset \<notin> snd ` set rest"
    by auto
  have "tasks (runTask t (x\<lparr>pending := rest\<rparr>)) \<subseteq> tasks (x\<lparr>pending := rest\<rparr>) \<union> {LogoutNavigate}"
    by (rule tasks_runTask)
  with a t r show "photoOperationRef (runTask t (x\<lparr>pending := rest\<rparr>)) = photoOperationRef s \<and>
      FlagReset \<notin> tasks (runTask t (x\<lparr>pending := rest\<rparr>))"
    by (auto simp: flag_runTask tasks_def)
next
  fix x
  assume "photoOperationRef x = photoOperationRef s \<and> FlagReset \<notin> tasks x"
  then show "photoOperationRef (advance1 x) = photoOperationRef s \<and> FlagReset \<notin> tasks (advance1 x)"
    by (simp add: tasks_advance1) (simp add: advance1_def)
qed

section \<open>Who clears the flag\<close>

lemmas step_defs =
  onAppStateChange_def appStateListener_def handleUserInteraction_def handleStay_def
  screenMount_def screenUnmount_def setPhotoOperationInProgress_def
  setIsPhotoOperationScreen_def setAuthenticated_def setTimeoutDisabled_def
  startTimerEffect_def startTimerCleanup_def resetIdleTimer_eq clearIdleTimer_def
  clearCountdownTimer_def setShowModal_def setTimeout_def call_def safeLogout_def Let_def

lemma step_flag_cleared:
  assumes "photoOperationRef s" "\<not> photoOperationRef (step r e s)"
  shows "(r = OperationRef \<and> e = AppStateChange Active \<and> isAuthenticated s)
       \<or> e = SetFlag False
       \<or> ((\<exists>n. e = Elapse n) \<and> FlagReset \<in> tasks s)"
proof (cases e)
  case (AppStateChange st)
  with assms show ?thesis
    by (cases r) (auto simp: step_defs split: if_splits)
next
  case (Elapse n)
  with assms elapse_flag [of s n] show ?thesis by auto
qed (use assms in \<open>auto simp: step_defs split: if_splits\<close>)

lemma step_flagReset_scheduled:
  assumes "FlagReset \<in> tasks (step r e s)" "FlagReset \<notin> tasks s"
  shows "e = ScreenUnmount"
proof (cases e)
  case (AppStateChange st)
  with assms show ?thesis
    by (cases r) (auto simp: tasks_def step_defs split: if_splits)
next
  case (Elapse n)
  with assms elapse_flag [of s n] show ?thesis by auto
qed (use assms in \<open>auto simp: tasks_def step_defs split: if_splits\<close>)

text \<open>
  C2 (who clears the flag), as the code has it. One event takes the flag from true to
  false only when it is
  \<^item> an Active transition of an authenticated session in the \<^verbatim>\<open>photoOperationRef\<close>
    revision (the listener consumes the flag), or
  \<^item> a call of the exported setter with false, or
  \<^item> the passing of time while the delayed reset of a photo screen is in flight; that
    timeout is set by the unmount of a photo screen and by nothing else.
  The listener of the \<^verbatim>\<open>isPhotoOperationScreenRef\<close> revision never writes the flag.
  Mounting a photo screen sets the flag; \<open>pickImage\<close> and \<open>takePhoto\<close> leave the session
  as it is. So a screen does clear the flag: its effect cleanup resets it 500 ms after
  the screen is left.
\<close>

theorem flag_clearing:
  "(photoOperationRef s \<and> \<not> photoOperationRef (step r e s) \<longrightarrow>
       (r = OperationRef \<and> e = AppStateChange Active \<and> isAuthenticated s)
       \<or> e = SetFlag False
       \<or> ((\<exists>n. e = Elapse n) \<and> FlagReset \<in> tasks s)) \<and>
   (FlagReset \<in> tasks (step r e s) \<and> FlagReset \<notin> tasks s \<longrightarrow> e = ScreenUnmount) \<and>
   photoOperationRef (onAppStateChange ScreenRef st s) = photoOperationRef s \<and>
   photoOperationRef (screenMount s) \<and>
   screenUnmount s = s\<lparr>pending := pending s @ [(500, FlagReset)]\<rparr> \<and>
   runTask FlagReset s = s\<lparr>photoOperationRef := False\<rparr> \<and>
   snd (pickImage res (photo, s)) = s \<and>
   snd (takePhoto granted res (photo, s)) = s"
proof -
  have "photoOperationRef (onAppStateChange ScreenRef st s) = photoOperationRef s"
    by (simp add: step_defs)
  moreover have "photoOperationRef (screenMount s)"
    by (simp add: step_defs)
  moreover have "screenUnmount s = s\<lparr>pending := pending s @ [(500, FlagReset)]\<rparr>"
    by (simp add: step_defs)
  moreover have "runTask FlagReset s = s\<lparr>photoOperationRef := False\<rparr>"
    by (simp add: step_defs)
  moreover have "snd (pickImage res (photo, s)) = s" "snd (takePhoto granted res (photo, s)) = s"
    by (simp_all add: pickImage_def takePhoto_def)
  ultimately show ?thesis
    using step_flag_cleared [of s r e] step_flagReset_scheduled [of r e s] by blast
qed

theorem flag_clearing_witness:
  "photoOperationRef flagged \<and> isAuthenticated flagged \<and>
   \<not> photoOperationRef (step OperationRef (AppStateChange Active) flagged) \<and>
   photoOperationRef (step ScreenRef (AppStateChange Active) flagged) \<and>
   FlagReset \<notin> tasks flagged \<and>
   FlagReset \<in> tasks (step ScreenRef ScreenUnmount flagged) \<and>
   \<not> photoOperationRef (runTask FlagReset flagged)"
proof -
  have h: "photoOperationRef flagged" "isAuthenticated flagged" "FlagReset \<notin> tasks flagged"
    by (simp_all add: flagged_def loggedIn_eq tasks_def)
  note th = flag_clearing [of flagged ScreenRef ScreenUnmount Active]
  from th have a: "photoOperationRef (onAppStateChange ScreenRef Active flagged)
      = photoOperationRef flagged"
    by blast
  from th have b: "screenUnmount flagged = flagged\<lparr>pending := pending flagged @ [(500, FlagReset)]\<rparr>"
    by blast
  from th have c: "runTask FlagReset flagged = flagged\<lparr>photoOperationRef := False\<rparr>"
    by blast
  have d: "\<not> photoOperationRef (step OperationRef (AppStateChange Active) flagged)"
    by (simp add: active_eq h)
  from h a b c d show ?thesis by (simp add: tasks_def del: runTask.simps)
qed

text \<open>
  A photo screen is mounted and left again; 500 ms later the flag is false, with no
  visibility transition at all.
\<close>

theorem flag_clearing_counterexample:
  "photoOperationRef (run ScreenRef [ScreenMount] loggedIn) \<and>
   \<not> photoOperationRef (run ScreenRef [ScreenMount, ScreenUnmount, Elapse 500] loggedIn)"
proof -
  define x where "x = screenUnmount (screenMount loggedIn)"
  have x: "x = loggedIn\<lparr>photoOperationRef := True, pending := [(500, FlagReset)]\<rparr>"
    by (simp add: x_def loggedIn_eq screenMount_def screenUnmount_def setTimeout_def
          setIsPhotoOperationScreen_def)
  have "noneBefore 500 x" by (simp add: x loggedIn_eq noneBefore_def IDLE_TIME_def)
  then have "elapse 500 x = drain (advance 500 x)" by (rule elapse_noneBefore)
  also have "\<dots> = (advance 500 x)\<lparr>pending := [], photoOperationRef := False\<rparr>"
    by (subst drain.simps)
       (simp add: x loggedIn_eq advance_def IDLE_TIME_def setIsPhotoOperationScreen_def
          drain_quiet)
  finally have "\<not> photoOperationRef (elapse 500 x)" by simp
  then show ?thesis
    by (simp add: x_def) (simp add: screenMount_def setIsPhotoOperationScreen_def)
qed

section \<open>Who clears authentication\<close>

lemma auth_runTask: "t \<noteq> LogoutClearAuth \<Longrightarrow> isAuthenticated (runTask t x) = isAuthenticated x"
  by (cases t) (auto simp: step_defs idleTimeout_eq)

lemma auth_countdownTick: "isAuthenticated (countdownTick x) = isAuthenticated x"
  by (simp add: countdownTick_def Let_def safeLogout_eq call_def clearCountdownTimer_def)

lemma auth_idleTimeout: "isAuthenticated (idleTimeout x) = isAuthenticated x"
  by (simp add: idleTimeout_def startCountdown_def setShowModal_def call_def)

lemma step_deauthenticates:
  assumes "isAuthenticated s" "\<not> isAuthenticated (step r e s)"
  shows "e = SetAuth False \<or> (\<exists>n. e = Elapse n)"
proof (cases e)
  case (AppStateChange st)
  with assms show ?thesis
    by (cases r) (auto simp: step_defs split: if_splits)
qed (use assms in \<open>auto simp: step_defs split: if_splits\<close>)

lemma step_logout_scheduled:
  assumes "LogoutClearAuth \<in> tasks (step r e s)" "LogoutClearAuth \<notin> tasks s"
    "\<forall>n. e \<noteq> Elapse n"
  shows "e = AppStateChange Active \<and> isAuthenticated s \<and> \<not> photoOperationRef s"
proof (cases e)
  case (AppStateChange st)
  with assms show ?thesis
    by (cases r) (auto simp: tasks_def step_defs split: if_splits)
qed (use assms in \<open>auto simp: tasks_def step_defs split: if_splits\<close>)

lemma countdownTick_logout_scheduled:
  "LogoutClearAuth \<in> tasks (countdownTick s) \<Longrightarrow> LogoutClearAuth \<notin> tasks s \<Longrightarrow> countdown s \<le> 1"
  by (auto simp: tasks_def countdownTick_def Let_def step_defs split: if_splits)

lemma runTask_logout_scheduled:
  "LogoutClearAuth \<in> tasks (runTask t s) \<Longrightarrow> LogoutClearAuth \<in> tasks s"
  using tasks_runTask [of t s] by auto

text \<open>
  C10 (background never deauthenticates). For every state and both revisions, the
  Background transition changes nothing but the two timers, the modal flag and the call
  trace (one \<open>ModalSet False\<close>); \<open>isAuthenticated\<close>, the photo flag and the pending
  timeouts are what they were. Authentication is cleared only by a call of
  \<^verbatim>\<open>setAuthenticated(false)\<close> from outside or, as time passes, by the first callback of
  \<open>safeLogout\<close>; no other timer callback clears it. That callback is scheduled only by
  the Active transition of an authenticated session without the flag, or by the
  countdown tick that finds the count at 1 or below.
\<close>

theorem background_never_deauthenticates:
  "onAppStateChange r Background s =
     (if isAuthenticated s
      then s\<lparr>idleTimer := None, countdownTimer := None, showModal := False,
             trace := trace s @ [ModalSet False]\<rparr>
      else s) \<and>
   isAuthenticated (onAppStateChange r Background s) = isAuthenticated s \<and>
   photoOperationRef (onAppStateChange r Background s) = photoOperationRef s \<and>
   pending (onAppStateChange r Background s) = pending s \<and>
   (isAuthenticated s \<and> \<not> isAuthenticated (step r e s) \<longrightarrow>
      e = SetAuth False \<or> (\<exists>n. e = Elapse n)) \<and>
   isAuthenticated (idleTimeout s) = isAuthenticated s \<and>
   isAuthenticated (countdownTick s) = isAuthenticated s \<and>
   (isAuthenticated s \<and> \<not> isAuthenticated (runTask t s) \<longrightarrow> t = LogoutClearAuth) \<and>
   (LogoutClearAuth \<in> tasks (step r e s) \<and> LogoutClearAuth \<notin> tasks s \<and> (\<forall>n. e \<noteq> Elapse n)
      \<longrightarrow> e = AppStateChange Active \<and> isAuthenticated s \<and> \<not> photoOperationRef s) \<and>
   tasks (idleTimeout s) = tasks s \<and>
   (LogoutClearAuth \<in> tasks (countdownTick s) \<and> LogoutClearAuth \<notin> tasks s
      \<longrightarrow> countdown s \<le> 1) \<and>
   (LogoutClearAuth \<in> tasks (runTask t s) \<longrightarrow> LogoutClearAuth \<in> tasks s)"
proof -
  have bg: "onAppStateChange r Background s =
     (if isAuthenticated s
      then s\<lparr>idleTimer := None, countdownTimer := None, showModal := False,
             trace := trace s @ [ModalSet False]\<rparr>
      else s)"
    by (rule background_eq)
  have frame: "isAuthenticated (onAppStateChange r Background s) = isAuthenticated s"
    "photoOperationRef (onAppStateChange r Background s) = photoOperationRef s"
    "pending (onAppStateChange r Background s) = pending s"
    by (simp_all add: background_eq)
  show ?thesis
    using bg frame step_deauthenticates [of s r e] auth_idleTimeout [of s]
      auth_countdownTick [of s] auth_runTask [of t s] step_logout_scheduled [of r e s]
      tasks_idleTimeout [of s] countdownTick_logout_scheduled [of s]
      runTask_logout_scheduled [of t s]
    by blast
qed

theorem background_never_deauthenticates_witness:
  "isAuthenticated counting \<and>
   isAuthenticated (onAppStateChange ScreenRef Background counting) \<and>
   \<not> photoOperationRef (onAppStateChange ScreenRef Background counting) \<and>
   pending (onAppStateChange ScreenRef Background counting) = [] \<and>
   \<not> isAuthenticated (step ScreenRef (SetAuth False) counting) \<and>
   \<not> isAuthenticated (runTask LogoutClearAuth counting) \<and>
   LogoutClearAuth \<notin> tasks counting \<and>
   LogoutClearAuth \<in> tasks (step ScreenRef (AppStateChange Active) counting)"
proof -
  have h: "isAuthenticated counting" "\<not> photoOperationRef counting" "pending counting = []"
    by (simp_all add: counting_def loggedIn_eq)
  note th = background_never_deauthenticates [of ScreenRef counting "SetAuth False" LogoutClearAuth]
  from th have frame:
    "isAuthenticated (onAppStateChange ScreenRef Background counting) = isAuthenticated counting"
    "photoOperationRef (onAppStateChange ScreenRef Background counting) = photoOperationRef counting"
    "pending (onAppStateChange ScreenRef Background counting) = pending counting"
    by blast+
  have a: "\<not> isAuthenticated (step ScreenRef (SetAuth False) counting)"
    by (simp add: h step_defs)
  have b: "\<not> isAuthenticated (runTask LogoutClearAuth counting)"
    by (simp add: clearAuth_eq del: runTask.simps)
  have c: "LogoutClearAuth \<in> tasks (step ScreenRef (AppStateChange Active) counting)"
    by (simp add: h active_eq safeLogout_eq tasks_def)
  from h frame a b c show ?thesis by (simp add: tasks_def del: runTask.simps)
qed


section \<open>The idle timer\<close>

text \<open>Only the idle timeout is live.\<close>

lemma elapse_idle_wait:
  assumes "idleTimer s = Some d" "countdownTimer s = None" "pending s = []" "n < d"
  shows "elapse n s = s\<lparr>idleTimer := Some (d - n)\<rparr>"
proof -
  have "noneBefore n s" using assms by (simp add: noneBefore_def)
  then have "elapse n s = drain (advance n s)" by (rule elapse_noneBefore)
  also have "advance n s = s\<lparr>idleTimer := Some (d - n)\<rparr>" using assms by (simp add: advance_def)
  also have "drain (s\<lparr>idleTimer := Some (d - n)\<rparr>) = s\<lparr>idleTimer := Some (d - n)\<rparr>"
    using assms by (simp add: drain_quiet)
  finally show ?thesis .
qed

lemma elapse_idle_due:
  assumes "idleTimer s = Some d" "countdownTimer s = None" "pending s = []"
  shows "elapse d s = idleTimeout (s\<lparr>idleTimer := None\<rparr>)"
proof -
  have "noneBefore d s" using assms by (simp add: noneBefore_def)
  then have "elapse d s = drain (advance d s)" by (rule elapse_noneBefore)
  also have "advance d s = s\<lparr>idleTimer := Some 0\<rparr>" using assms by (simp add: advance_def)
  also have "drain (s\<lparr>idleTimer := Some 0\<rparr>) = drain (idleTimeout (s\<lparr>idleTimer := None\<rparr>))"
    by (subst drain.simps) simp
  also have "\<dots> = idleTimeout (s\<lparr>idleTimer := None\<rparr>)"
    using assms by (simp add: drain_quiet idleTimeout_eq)
  finally show ?thesis .
qed

lemma interaction_rearms:
  assumes "isAuthenticated s" "\<not> timeoutDisabled s" "\<not> showModal s"
    "idleTimer s = Some d" "countdownTimer s = None" "pending s = []" "n < d"
  shows "handleUserInteraction (elapse n s) = s\<lparr>idleTimer := Some IDLE_TIME\<rparr>"
  using assms
  by (simp add: elapse_idle_wait handleUserInteraction_def resetIdleTimer_eq clearIdleTimer_def)

lemma interactions_keep_unlocked:
  assumes "isAuthenticated s" "\<not> timeoutDisabled s" "\<not> showModal s"
    "idleTimer s = Some IDLE_TIME" "countdownTimer s = None" "pending s = []"
    "\<forall>g \<in> set gs. g < IDLE_TIME"
  shows "run r (concat (map (\<lambda>g. [Elapse g, Press]) gs)) s = s"
  using assms(7)
proof (induction gs)
  case Nil
  then show ?case by simp
next
  case (Cons g gs)
  then have g: "g < IDLE_TIME" by simp
  have "handleUserInteraction (elapse g s) = s\<lparr>idleTimer := Some IDLE_TIME\<rparr>"
    by (rule interaction_rearms [OF assms(1-6) g])
  also have "\<dots> = s" using assms(4) by simp
  finally show ?case using Cons by simp
qed

text \<open>
  The assignment to \<^verbatim>\<open>idleTimer.current\<close> alone does not cancel anything: made while
  the ref points to a live timeout, it leaves that timeout in flight without a handle,
  and at its deadline the modal is shown and the countdown starts, the new timeout
  still running.
\<close>

lemma overwritten_timeout_fires:
  assumes "idleTimer s = Some d" "countdownTimer s = None" "pending s = []" "d < IDLE_TIME"
  shows "setIdleTimeout s = s\<lparr>idleTimer := Some IDLE_TIME, pending := [(d, LostIdleTimeout)]\<rparr>"
    and "elapse d (setIdleTimeout s) =
           s\<lparr>idleTimer := Some (IDLE_TIME - d), countdownTimer := Some 1000,
             showModal := True, countdown := COUNTDOWN_SECONDS,
             trace := trace s @ [ModalSet True]\<rparr>"
proof -
  let ?x = "s\<lparr>idleTimer := Some IDLE_TIME, pending := [(d, LostIdleTimeout)]\<rparr>"
  show x: "setIdleTimeout s = ?x" using assms by (simp add: setIdleTimeout_def)
  have "noneBefore d ?x" using assms by (simp add: noneBefore_def)
  then have "elapse d ?x = drain (advance d ?x)" by (rule elapse_noneBefore)
  also have "advance d ?x = s\<lparr>idleTimer := Some (IDLE_TIME - d), pending := [(0, LostIdleTimeout)]\<rparr>"
    using assms by (simp add: advance_def)
  also have "drain \<dots> = drain (idleTimeout (s\<lparr>idleTimer := Some (IDLE_TIME - d), pending := []\<rparr>))"
    using assms by (subst drain.simps) simp
  also have "\<dots> = idleTimeout (s\<lparr>idleTimer := Some (IDLE_TIME - d), pending := []\<rparr>)"
    using assms by (simp add: drain_quiet idleTimeout_eq)
  finally show "elapse d (setIdleTimeout s) =
           s\<lparr>idleTimer := Some (IDLE_TIME - d), countdownTimer := Some 1000,
             showModal := True, countdown := COUNTDOWN_SECONDS,
             trace := trace s @ [ModalSet True]\<rparr>"
    using assms(3) by (simp add: x idleTimeout_eq)
qed

text \<open>
  The program clears the ref before every such assignment, so that no idle timeout ever
  loses its handle.
\<close>

lemma handle_kept_elapse:
  "LostIdleTimeout \<notin> tasks s \<Longrightarrow> LostIdleTimeout \<notin> tasks (elapse n s)"
proof (rule elapse_preserves [where P = "\<lambda>x. LostIdleTimeout \<notin> tasks x"])
  fix x assume "LostIdleTimeout \<notin> tasks x"
  then show "LostIdleTimeout \<notin> tasks (idleTimeout (x\<lparr>idleTimer := None\<rparr>))"
    by (simp add: tasks_idleTimeout) (simp add: tasks_def)
next
  fix x assume a: "LostIdleTimeout \<notin> tasks x"
  have "tasks (countdownTick (x\<lparr>countdownTimer := Some 1000\<rparr>))
          \<subseteq> tasks (x\<lparr>countdownTimer := Some 1000\<rparr>) \<union> {LogoutClearAuth}"
    by (rule tasks_countdownTick)
  with a show "LostIdleTimeout \<notin> tasks (countdownTick (x\<lparr>countdownTimer := Some 1000\<rparr>))"
    by (auto simp: tasks_def)
next
  fix x t rest
  assume a: "LostIdleTimeout \<notin> tasks x" and d: "dueTask (pending x) = Some (t, rest)"
  from dueTask_tasks [OF d] a have r: "LostIdleTimeout \<notin> snd ` set rest" by auto
  have "tasks (runTask t (x\<lparr>pending := rest\<rparr>)) \<subseteq> tasks (x\<lparr>pending := rest\<rparr>) \<union> {LogoutNavigate}"
    by (rule tasks_runTask)
  with r show "LostIdleTimeout \<notin> tasks (runTask t (x\<lparr>pending := rest\<rparr>))"
    by (auto simp: tasks_def)
next
  fix x assume "LostIdleTimeout \<notin> tasks x"
  then show "LostIdleTimeout \<notin> tasks (advance1 x)" by (simp add: tasks_advance1)
qed

lemma handle_kept_step:
  assumes "LostIdleTimeout \<notin> tasks s"
  shows "LostIdleTimeout \<notin> tasks (step r e s)"
proof (cases e)
  case (AppStateChange st)
  with assms show ?thesis by (cases r) (auto simp: tasks_def step_defs)
next
  case (Elapse n)
  with assms handle_kept_elapse show ?thesis by simp
qed (use assms in \<open>auto simp: tasks_def step_defs\<close>)

lemma handle_kept:
  "LostIdleTimeout \<notin> tasks s \<Longrightarrow> LostIdleTimeout \<notin> tasks (run r es s)"
  by (induction es arbitrary: s) (auto simp: handle_kept_step)

text \<open>
  C5 (idle correctness). Take an unlocked session: authenticated, the timeout not
  switched off, the modal hidden, the idle timeout live with \<open>d\<close> milliseconds to go,
  no countdown and no other timeout in flight. Then
  \<^item> while less than \<open>d\<close> ms pass without any event, nothing changes but the time left;
  \<^item> when \<open>d\<close> ms have passed, the idle timeout fires: the modal is shown and the
    countdown starts at \<open>COUNTDOWN_SECONDS\<close>, its first tick a second away;
  \<^item> a press strictly before that cancels the timeout and arms a new one of the full
    \<open>IDLE_TIME\<close> (120000 ms): the press is \<open>clearIdleTimer\<close>, which leaves no idle
    timeout live, followed by the assignment of the new one; no timeout is left in
    flight, so that in the \<open>IDLE_TIME\<close> after the press nothing fires, the old deadline
    included, and the modal is shown exactly \<open>IDLE_TIME\<close> after the press;
  \<^item> so after any sequence of presses, each less than \<open>IDLE_TIME\<close> after the one
    before, the session is as it was when it was last armed: the countdown has not
    started;
  \<^item> a press while the modal is showing changes nothing, in any state.
\<close>

theorem idle_correctness:
  assumes "isAuthenticated s" "\<not> timeoutDisabled s" "\<not> showModal s"
    "idleTimer s = Some d" "countdownTimer s = None" "pending s = []"
  shows "(\<forall>n<d. elapse n s = s\<lparr>idleTimer := Some (d - n)\<rparr>) \<and>
         elapse d s =
           s\<lparr>idleTimer := None, showModal := True, countdown := COUNTDOWN_SECONDS,
             countdownTimer := Some 1000, trace := trace s @ [ModalSet True]\<rparr> \<and>
         (\<forall>n<d. handleUserInteraction (elapse n s) = s\<lparr>idleTimer := Some IDLE_TIME\<rparr>) \<and>
         (\<forall>n<d. clearIdleTimer (elapse n s) = s\<lparr>idleTimer := None\<rparr> \<and>
            handleUserInteraction (elapse n s) = setIdleTimeout (clearIdleTimer (elapse n s)) \<and>
            pending (handleUserInteraction (elapse n s)) = [] \<and>
            (\<forall>m<IDLE_TIME. elapse m (handleUserInteraction (elapse n s))
               = s\<lparr>idleTimer := Some (IDLE_TIME - m)\<rparr>) \<and>
            elapse IDLE_TIME (handleUserInteraction (elapse n s)) =
              s\<lparr>idleTimer := None, showModal := True, countdown := COUNTDOWN_SECONDS,
                countdownTimer := Some 1000, trace := trace s @ [ModalSet True]\<rparr>) \<and>
         (\<forall>gs. (\<forall>g \<in> set gs. g < IDLE_TIME) \<longrightarrow>
            run r (concat (map (\<lambda>g. [Elapse g, Press]) gs)) (s\<lparr>idleTimer := Some IDLE_TIME\<rparr>)
              = s\<lparr>idleTimer := Some IDLE_TIME\<rparr>) \<and>
         handleUserInteraction (elapse d s) = elapse d s \<and>
         (\<forall>x. showModal x \<longrightarrow> handleUserInteraction x = x) \<and>
         IDLE_TIME = 120000"
proof -
  have wait: "\<forall>n<d. elapse n s = s\<lparr>idleTimer := Some (d - n)\<rparr>"
    using assms by (simp add: elapse_idle_wait)
  have due: "elapse d s =
           s\<lparr>idleTimer := None, showModal := True, countdown := COUNTDOWN_SECONDS,
             countdownTimer := Some 1000, trace := trace s @ [ModalSet True]\<rparr>"
    using assms by (simp add: elapse_idle_due idleTimeout_eq)
  have rearm: "\<forall>n<d. handleUserInteraction (elapse n s) = s\<lparr>idleTimer := Some IDLE_TIME\<rparr>"
    using assms by (simp add: interaction_rearms)
  have cancel: "clearIdleTimer (elapse n s) = s\<lparr>idleTimer := None\<rparr> \<and>
            handleUserInteraction (elapse n s) = setIdleTimeout (clearIdleTimer (elapse n s)) \<and>
            pending (handleUserInteraction (elapse n s)) = [] \<and>
            (\<forall>m<IDLE_TIME. elapse m (handleUserInteraction (elapse n s))
               = s\<lparr>idleTimer := Some (IDLE_TIME - m)\<rparr>) \<and>
            elapse IDLE_TIME (handleUserInteraction (elapse n s)) =
              s\<lparr>idleTimer := None, showModal := True, countdown := COUNTDOWN_SECONDS,
                countdownTimer := Some 1000, trace := trace s @ [ModalSet True]\<rparr>"
    if n: "n < d" for n
  proof -
    let ?p = "s\<lparr>idleTimer := Some IDLE_TIME\<rparr>"
    have e: "elapse n s = s\<lparr>idleTimer := Some (d - n)\<rparr>"
      using assms n by (simp add: elapse_idle_wait)
    have c: "clearIdleTimer (elapse n s) = s\<lparr>idleTimer := None\<rparr>"
      by (simp add: e clearIdleTimer_def)
    have h: "setIdleTimeout (clearIdleTimer (elapse n s)) = ?p"
      by (simp add: c setIdleTimeout_def)
    have p: "handleUserInteraction (elapse n s) = ?p"
      using assms n by (simp add: interaction_rearms)
    have q: "idleTimer ?p = Some IDLE_TIME" "countdownTimer ?p = None" "pending ?p = []"
      using assms by simp_all
    have w: "elapse m ?p = s\<lparr>idleTimer := Some (IDLE_TIME - m)\<rparr>" if "m < IDLE_TIME" for m
      using elapse_idle_wait [OF q that] by simp
    have f: "elapse IDLE_TIME ?p =
              s\<lparr>idleTimer := None, showModal := True, countdown := COUNTDOWN_SECONDS,
                countdownTimer := Some 1000, trace := trace s @ [ModalSet True]\<rparr>"
      using elapse_idle_due [OF q] by (simp add: idleTimeout_eq)
    have l: "pending ?p = []" using assms(6) by simp
    from c w f l show ?thesis unfolding p h by blast
  qed
  have keep: "\<forall>gs. (\<forall>g \<in> set gs. g < IDLE_TIME) \<longrightarrow>
            run r (concat (map (\<lambda>g. [Elapse g, Press]) gs)) (s\<lparr>idleTimer := Some IDLE_TIME\<rparr>)
              = s\<lparr>idleTimer := Some IDLE_TIME\<rparr>"
    using assms by (auto intro!: interactions_keep_unlocked)
  have modal: "\<forall>x. showModal x \<longrightarrow> handleUserInteraction x = x"
    by (simp add: handleUserInteraction_def)
  have "showModal (elapse d s)" by (simp add: due)
  with modal have noRearm: "handleUserInteraction (elapse d s) = elapse d s" by blast
  have "IDLE_TIME = 120000" by (simp add: IDLE_TIME_def)
  with wait due rearm cancel keep noRearm modal show ?thesis by blast
qed

theorem idle_correctness_witness:
  "isAuthenticated loggedIn \<and> \<not> timeoutDisabled loggedIn \<and> \<not> showModal loggedIn \<and>
   idleTimer loggedIn = Some IDLE_TIME \<and> countdownTimer loggedIn = None \<and>
   pending loggedIn = [] \<and>
   idleTimer (elapse 119999 loggedIn) = Some 1 \<and>
   showModal (elapse IDLE_TIME loggedIn) \<and>
   countdownTimer (elapse IDLE_TIME loggedIn) = Some 1000 \<and>
   countdown (elapse IDLE_TIME loggedIn) = 10 \<and>
   handleUserInteraction (elapse 119999 loggedIn) = loggedIn \<and>
   idleTimer (clearIdleTimer (elapse 119999 loggedIn)) = None \<and>
   pending (handleUserInteraction (elapse 119999 loggedIn)) = [] \<and>
   \<not> showModal (elapse 1 (handleUserInteraction (elapse 119999 loggedIn))) \<and>
   idleTimer (elapse 1 (handleUserInteraction (elapse 119999 loggedIn))) = Some 119999 \<and>
   showModal (elapse IDLE_TIME (handleUserInteraction (elapse 119999 loggedIn)))"
proof -
  have h: "isAuthenticated loggedIn" "\<not> timeoutDisabled loggedIn" "\<not> showModal loggedIn"
    "idleTimer loggedIn = Some IDLE_TIME" "countdownTimer loggedIn = None"
    "pending loggedIn = []"
    by (simp_all add: loggedIn_eq)
  note th = idle_correctness [OF h, of ScreenRef]
  from th have wait: "\<forall>n<IDLE_TIME. elapse n loggedIn = loggedIn\<lparr>idleTimer := Some (IDLE_TIME - n)\<rparr>"
    by blast
  from th have due: "elapse IDLE_TIME loggedIn =
           loggedIn\<lparr>idleTimer := None, showModal := True, countdown := COUNTDOWN_SECONDS,
             countdownTimer := Some 1000, trace := trace loggedIn @ [ModalSet True]\<rparr>"
    by blast
  from th have rearm: "\<forall>n<IDLE_TIME. handleUserInteraction (elapse n loggedIn)
      = loggedIn\<lparr>idleTimer := Some IDLE_TIME\<rparr>"
    by blast
  from th have cancel: "\<forall>n<IDLE_TIME.
      clearIdleTimer (elapse n loggedIn) = loggedIn\<lparr>idleTimer := None\<rparr> \<and>
      pending (handleUserInteraction (elapse n loggedIn)) = [] \<and>
      (\<forall>m<IDLE_TIME. elapse m (handleUserInteraction (elapse n loggedIn))
         = loggedIn\<lparr>idleTimer := Some (IDLE_TIME - m)\<rparr>) \<and>
      elapse IDLE_TIME (handleUserInteraction (elapse n loggedIn)) =
        loggedIn\<lparr>idleTimer := None, showModal := True, countdown := COUNTDOWN_SECONDS,
          countdownTimer := Some 1000, trace := trace loggedIn @ [ModalSet True]\<rparr>"
    by blast
  have n: "(119999::nat) < IDLE_TIME" and m: "(1::nat) < IDLE_TIME"
    by (simp_all add: IDLE_TIME_def)
  have a: "idleTimer (elapse 119999 loggedIn) = Some 1"
    using wait [rule_format, OF n] by (simp add: IDLE_TIME_def)
  have b: "handleUserInteraction (elapse 119999 loggedIn) = loggedIn"
    using rearm [rule_format, OF n] h(4) by simp
  from cancel [rule_format, OF n]
  have c1: "clearIdleTimer (elapse 119999 loggedIn) = loggedIn\<lparr>idleTimer := None\<rparr>"
    and c2: "pending (handleUserInteraction (elapse 119999 loggedIn)) = []"
    and c3: "\<forall>m<IDLE_TIME. elapse m (handleUserInteraction (elapse 119999 loggedIn))
         = loggedIn\<lparr>idleTimer := Some (IDLE_TIME - m)\<rparr>"
    and c4: "elapse IDLE_TIME (handleUserInteraction (elapse 119999 loggedIn)) =
        loggedIn\<lparr>idleTimer := None, showModal := True, countdown := COUNTDOWN_SECONDS,
          countdownTimer := Some 1000, trace := trace loggedIn @ [ModalSet True]\<rparr>"
    by blast+
  have c5: "elapse 1 (handleUserInteraction (elapse 119999 loggedIn))
      = loggedIn\<lparr>idleTimer := Some 119999\<rparr>"
    using c3 [rule_format, OF m] by (simp add: IDLE_TIME_def)
  have x: "idleTimer (clearIdleTimer (elapse 119999 loggedIn)) = None"
    "\<not> showModal (elapse 1 (handleUserInteraction (elapse 119999 loggedIn)))"
    "idleTimer (elapse 1 (handleUserInteraction (elapse 119999 loggedIn))) = Some 119999"
    "showModal (elapse IDLE_TIME (handleUserInteraction (elapse 119999 loggedIn)))"
    using h(3) by (simp_all only: c1 c5 c4) simp_all
  have y: "showModal (elapse IDLE_TIME loggedIn)"
    "countdownTimer (elapse IDLE_TIME loggedIn) = Some 1000"
    "countdown (elapse IDLE_TIME loggedIn) = 10"
    by (simp_all add: due COUNTDOWN_SECONDS_def)
  from h a b c2 x y show ?thesis by blast
qed

section \<open>The countdown\<close>

text \<open>Only the countdown interval is live.\<close>

lemma elapse_countdown_wait:
  assumes "idleTimer s = None" "countdownTimer s = Some c" "pending s = []" "n < c"
  shows "elapse n s = s\<lparr>countdownTimer := Some (c - n)\<rparr>"
proof -
  have "noneBefore n s" using assms by (simp add: noneBefore_def)
  then have "elapse n s = drain (advance n s)" by (rule elapse_noneBefore)
  also have "advance n s = s\<lparr>countdownTimer := Some (c - n)\<rparr>"
    using assms by (simp add: advance_def)
  also have "drain (s\<lparr>countdownTimer := Some (c - n)\<rparr>) = s\<lparr>countdownTimer := Some (c - n)\<rparr>"
    using assms by (simp add: drain_quiet)
  finally show ?thesis .
qed

lemma elapse_countdown_due:
  assumes "idleTimer s = None" "countdownTimer s = Some c" "pending s = []"
  shows "elapse c s = drain (countdownTick (s\<lparr>countdownTimer := Some 1000\<rparr>))"
proof -
  have "noneBefore c s" using assms by (simp add: noneBefore_def)
  then have "elapse c s = drain (advance c s)" by (rule elapse_noneBefore)
  also have "advance c s = s\<lparr>countdownTimer := Some 0\<rparr>" using assms by (simp add: advance_def)
  also have "drain (s\<lparr>countdownTimer := Some 0\<rparr>)
      = drain (countdownTick (s\<lparr>countdownTimer := Some 1000\<rparr>))"
    using assms by (subst drain.simps) simp
  finally show ?thesis .
qed

lemma tick_before_expiry:
  assumes "idleTimer s = None" "pending s = []" "k < 9"
  shows "elapse 1000 (ticked k s) = ticked (Suc k) s"
proof -
  have "elapse 1000 (ticked k s)
      = drain (countdownTick ((ticked k s)\<lparr>countdownTimer := Some 1000\<rparr>))"
    using assms by (intro elapse_countdown_due) (simp_all add: ticked_def)
  also have "countdownTick ((ticked k s)\<lparr>countdownTimer := Some 1000\<rparr>) = ticked (Suc k) s"
    using assms(3)
    by (auto simp: countdownTick_def ticked_def Let_def call_def COUNTDOWN_SECONDS_def)
  also have "drain (ticked (Suc k) s) = ticked (Suc k) s"
    using assms by (simp add: drain_quiet ticked_def)
  finally show ?thesis .
qed

lemma ticks:
  assumes "idleTimer s = None" "pending s = []"
  shows "k \<le> 9 \<Longrightarrow> elapse (1000 * k) (idleTimeout s) = ticked k s"
proof (induction k)
  case 0
  have "drain (idleTimeout s) = idleTimeout s"
    using assms by (simp add: drain_quiet idleTimeout_eq)
  then show ?case by (simp add: idleTimeout_eq ticked_def)
next
  case (Suc k)
  then have k: "k < 9" by simp
  have "elapse (1000 * Suc k) (idleTimeout s) = elapse (1000 * k + 1000) (idleTimeout s)"
    by (simp add: add.commute)
  also have "\<dots> = elapse 1000 (elapse (1000 * k) (idleTimeout s))"
    by (rule elapse_add)
  also have "\<dots> = elapse 1000 (ticked k s)" using Suc by simp
  also have "\<dots> = ticked (Suc k) s" by (rule tick_before_expiry [OF assms k])
  finally show ?case .
qed

lemma between_ticks:
  assumes "idleTimer s = None" "pending s = []" "k < 10" "j < 1000"
  shows "elapse (1000 * k + j) (idleTimeout s) = (ticked k s)\<lparr>countdownTimer := Some (1000 - j)\<rparr>"
proof -
  from assms(3) have k: "k \<le> 9" by simp
  have "elapse (1000 * k + j) (idleTimeout s) = elapse j (elapse (1000 * k) (idleTimeout s))"
    by (rule elapse_add)
  also have "\<dots> = elapse j (ticked k s)" by (simp add: ticks [OF assms(1,2) k])
  also have "\<dots> = (ticked k s)\<lparr>countdownTimer := Some (1000 - j)\<rparr>"
    using assms by (intro elapse_countdown_wait) (simp_all add: ticked_def)
  finally show ?thesis .
qed

lemma tenth_tick:
  assumes "isAuthenticated s" "idleTimer s = None" "pending s = []"
  shows "elapse 10000 (idleTimeout s) = expired s"
proof -
  let ?x = "s\<lparr>showModal := False, countdown := 0, countdownTimer := None,
          pending := [(0, LogoutClearAuth)],
          trace := trace s @ [ModalSet True, ImpactMedium, NotifyError, ModalSet False]\<rparr>"
  have fire: "runTask LogoutClearAuth (?x\<lparr>pending := []\<rparr>) = expired s"
    using assms by (simp add: clearAuth_eq expired_def del: runTask.simps)
  have "elapse 10000 (idleTimeout s) = elapse (1000 * 9 + 1000) (idleTimeout s)" by simp
  also have "\<dots> = elapse 1000 (elapse (1000 * 9) (idleTimeout s))" by (rule elapse_add)
  also have "\<dots> = elapse 1000 (ticked 9 s)" using ticks [OF assms(2,3), of 9] by simp
  also have "\<dots> = drain (countdownTick ((ticked 9 s)\<lparr>countdownTimer := Some 1000\<rparr>))"
    using assms by (intro elapse_countdown_due) (simp_all add: ticked_def)
  also have "countdownTick ((ticked 9 s)\<lparr>countdownTimer := Some 1000\<rparr>) = ?x"
    using assms
    by (simp add: countdownTick_def ticked_def Let_def call_def COUNTDOWN_SECONDS_def
          safeLogout_eq clearCountdownTimer_def)
  also have "drain ?x = drain (runTask LogoutClearAuth (?x\<lparr>pending := []\<rparr>))"
    using assms by (subst drain.simps) (simp del: runTask.simps)
  also have "\<dots> = drain (expired s)" by (simp only: fire)
  also have "\<dots> = expired s" using assms by (simp add: drain_quiet expired_def)
  finally show ?thesis .
qed

lemma stay_rearms:
  assumes "isAuthenticated x" "\<not> timeoutDisabled x" "idleTimer x = None" "pending x = []"
  shows "elapse 50 (handleStay x) = (handleStay x)\<lparr>pending := [], idleTimer := Some IDLE_TIME\<rparr>"
proof -
  have "elapse 50 (handleStay x)
      = drain (runTask (StayReset True False) ((handleStay x)\<lparr>pending := []\<rparr>))"
    using assms
    by (intro elapse_single_due)
       (simp_all add: handleStay_def setTimeout_def clearCountdownTimer_def setShowModal_def
          call_def)
  also have "runTask (StayReset True False) ((handleStay x)\<lparr>pending := []\<rparr>)
      = (handleStay x)\<lparr>pending := [], idleTimer := Some IDLE_TIME\<rparr>"
    by (simp add: resetIdleTimer_eq clearIdleTimer_def)
  also have "drain \<dots> = \<dots>"
    using assms
    by (simp add: drain_quiet handleStay_def setTimeout_def clearCountdownTimer_def
          setShowModal_def call_def IDLE_TIME_def)
  finally show ?thesis .
qed

text \<open>
  C4 (countdown terminality). Let the idle timeout fire in an authenticated session
  with the timeout not switched off and no other timeout in flight, and let time pass
  with no other event. Then
  \<^item> for \<open>k < 10\<close> and \<open>j < 1000\<close>, after \<open>1000 k + j\<close> ms the session is still
    authenticated with the modal showing, the count is \<open>10 - k\<close>, and the medium haptic
    has been played exactly when \<open>k = 9\<close>: it is played by the ninth tick, the one that
    finds the count at 2;
  \<^item> after 10000 ms (the tenth tick) the error haptic has been played, the modal is
    hidden, the interval is cleared and authentication is cleared, with the navigation
    150 ms away;
  \<^item> "I'm Still Here" at any time before that hides the modal and clears the interval
    at once, leaves the session authenticated, and 50 ms later the idle timeout is armed
    with the full \<open>IDLE_TIME\<close>; from then on only that timeout runs.
\<close>

theorem countdown_terminality:
  assumes "isAuthenticated s" "\<not> timeoutDisabled s" "idleTimer s = None" "pending s = []"
  shows "(\<forall>k<10. \<forall>j<1000.
            elapse (1000 * k + j) (idleTimeout s) =
              s\<lparr>showModal := True, countdown := 10 - int k,
                countdownTimer := Some (1000 - j),
                trace := trace s @ ModalSet True # (if k = 9 then [ImpactMedium] else [])\<rparr>) \<and>
         elapse 10000 (idleTimeout s) =
           s\<lparr>isAuthenticated := False, showModal := False, countdown := 0,
             idleTimer := None, countdownTimer := None, pending := [(150, LogoutNavigate)],
             trace := trace s @ [ModalSet True, ImpactMedium, NotifyError, ModalSet False,
                                 AuthSet False]\<rparr> \<and>
         (\<forall>k<10. \<forall>j<1000.
            \<not> showModal (handleStay (elapse (1000 * k + j) (idleTimeout s))) \<and>
            countdownTimer (handleStay (elapse (1000 * k + j) (idleTimeout s))) = None \<and>
            isAuthenticated (handleStay (elapse (1000 * k + j) (idleTimeout s))) \<and>
            (\<forall>n<IDLE_TIME.
               elapse (50 + n) (handleStay (elapse (1000 * k + j) (idleTimeout s))) =
                 (handleStay (elapse (1000 * k + j) (idleTimeout s)))
                   \<lparr>pending := [], idleTimer := Some (IDLE_TIME - n)\<rparr>))"
proof -
  have run: "\<forall>k<10. \<forall>j<1000.
            elapse (1000 * k + j) (idleTimeout s) =
              s\<lparr>showModal := True, countdown := 10 - int k,
                countdownTimer := Some (1000 - j),
                trace := trace s @ ModalSet True # (if k = 9 then [ImpactMedium] else [])\<rparr>"
    using assms by (simp add: between_ticks ticked_def COUNTDOWN_SECONDS_def)
  have expiry: "elapse 10000 (idleTimeout s) =
           s\<lparr>isAuthenticated := False, showModal := False, countdown := 0,
             idleTimer := None, countdownTimer := None, pending := [(150, LogoutNavigate)],
             trace := trace s @ [ModalSet True, ImpactMedium, NotifyError, ModalSet False,
                                 AuthSet False]\<rparr>"
    using assms by (simp add: tenth_tick expired_def)
  have stay: "\<not> showModal (handleStay x) \<and> countdownTimer (handleStay x) = None \<and>
      isAuthenticated (handleStay x) \<and>
      (\<forall>n<IDLE_TIME. elapse (50 + n) (handleStay x)
         = (handleStay x)\<lparr>pending := [], idleTimer := Some (IDLE_TIME - n)\<rparr>)"
    if "x = elapse (1000 * k + j) (idleTimeout s)" "k < 10" "j < 1000" for x k j
  proof -
    from that assms have x: "isAuthenticated x" "\<not> timeoutDisabled x" "idleTimer x = None"
      "pending x = []"
      by (simp_all add: between_ticks ticked_def)
    have sync: "\<not> showModal (handleStay x)" "countdownTimer (handleStay x) = None"
      "isAuthenticated (handleStay x)"
      using x(1)
      by (simp_all add: handleStay_def setTimeout_def clearCountdownTimer_def setShowModal_def
            call_def)
    have "elapse (50 + n) (handleStay x)
        = (handleStay x)\<lparr>pending := [], idleTimer := Some (IDLE_TIME - n)\<rparr>"
      if n: "n < IDLE_TIME" for n
    proof -
      have "elapse (50 + n) (handleStay x) = elapse n (elapse 50 (handleStay x))"
        by (rule elapse_add)
      also have "\<dots> = elapse n ((handleStay x)\<lparr>pending := [], idleTimer := Some IDLE_TIME\<rparr>)"
        by (simp only: stay_rearms [OF x])
      also have "\<dots> = (handleStay x)\<lparr>pending := [], idleTimer := Some IDLE_TIME\<rparr>
                          \<lparr>idleTimer := Some (IDLE_TIME - n)\<rparr>"
        using sync n by (intro elapse_idle_wait) simp_all
      finally show ?thesis by simp
    qed
    with sync show ?thesis by blast
  qed
  from run expiry stay show ?thesis by blast
qed

theorem countdown_terminality_witness:
  "isAuthenticated idleFired \<and> \<not> timeoutDisabled idleFired \<and>
   idleTimer idleFired = None \<and> pending idleFired = [] \<and>
   countdown (elapse 0 (idleTimeout idleFired)) = 10 \<and>
   trace (elapse 8999 (idleTimeout idleFired)) = [AuthSet True, ModalSet True] \<and>
   trace (elapse 9000 (idleTimeout idleFired)) = [AuthSet True, ModalSet True, ImpactMedium] \<and>
   countdown (elapse 9999 (idleTimeout idleFired)) = 1 \<and>
   isAuthenticated (elapse 9999 (idleTimeout idleFired)) \<and>
   \<not> isAuthenticated (elapse 10000 (idleTimeout idleFired)) \<and>
   idleTimer (elapse 50 (handleStay (elapse 4500 (idleTimeout idleFired)))) = Some IDLE_TIME \<and>
   isAuthenticated (elapse 50 (handleStay (elapse 4500 (idleTimeout idleFired))))"
proof -
  have h: "isAuthenticated idleFired" "\<not> timeoutDisabled idleFired"
    "idleTimer idleFired = None" "pending idleFired = []"
    by (simp_all add: idleFired_def loggedIn_eq)
  have t: "trace idleFired = [AuthSet True]" by (simp add: idleFired_def loggedIn_eq)
  note th = countdown_terminality [OF h]
  from th have run: "\<forall>k<10. \<forall>j<1000.
            elapse (1000 * k + j) (idleTimeout idleFired) =
              idleFired\<lparr>showModal := True, countdown := 10 - int k,
                countdownTimer := Some (1000 - j),
                trace := trace idleFired @ ModalSet True # (if k = 9 then [ImpactMedium] else [])\<rparr>"
    by blast
  from th have expiry: "\<not> isAuthenticated (elapse 10000 (idleTimeout idleFired))"
    by simp
  from th have stay: "\<forall>k<10. \<forall>j<1000.
      isAuthenticated (handleStay (elapse (1000 * k + j) (idleTimeout idleFired))) \<and>
      (\<forall>n<IDLE_TIME.
         elapse (50 + n) (handleStay (elapse (1000 * k + j) (idleTimeout idleFired))) =
           (handleStay (elapse (1000 * k + j) (idleTimeout idleFired)))
             \<lparr>pending := [], idleTimer := Some (IDLE_TIME - n)\<rparr>)"
    by blast
  have z: "(0::nat) < IDLE_TIME" by (simp add: IDLE_TIME_def)
  have r0: "elapse 0 (idleTimeout idleFired)
      = idleFired\<lparr>showModal := True, countdown := 10, countdownTimer := Some 1000,
          trace := trace idleFired @ [ModalSet True]\<rparr>"
    using run [rule_format, of 0 0] by (simp del: elapse.simps)
  have r8: "elapse 8999 (idleTimeout idleFired)
      = idleFired\<lparr>showModal := True, countdown := 2, countdownTimer := Some 1,
          trace := trace idleFired @ [ModalSet True]\<rparr>"
    using run [rule_format, of 8 999] by simp
  have r9: "elapse 9000 (idleTimeout idleFired)
      = idleFired\<lparr>showModal := True, countdown := 1, countdownTimer := Some 1000,
          trace := trace idleFired @ [ModalSet True, ImpactMedium]\<rparr>"
    using run [rule_format, of 9 0] by simp
  have r99: "elapse 9999 (idleTimeout idleFired)
      = idleFired\<lparr>showModal := True, countdown := 1, countdownTimer := Some 1,
          trace := trace idleFired @ [ModalSet True, ImpactMedium]\<rparr>"
    using run [rule_format, of 9 999] by simp
  have st: "isAuthenticated (handleStay (elapse 4500 (idleTimeout idleFired))) \<and>
      (\<forall>n<IDLE_TIME.
         elapse (50 + n) (handleStay (elapse 4500 (idleTimeout idleFired))) =
           (handleStay (elapse 4500 (idleTimeout idleFired)))
             \<lparr>pending := [], idleTimer := Some (IDLE_TIME - n)\<rparr>)"
    using stay [rule_format, of 4 500] by simp
  then have s1: "isAuthenticated (handleStay (elapse 4500 (idleTimeout idleFired)))"
    by blast
  from st have "\<forall>n<IDLE_TIME.
         elapse (50 + n) (handleStay (elapse 4500 (idleTimeout idleFired))) =
           (handleStay (elapse 4500 (idleTimeout idleFired)))
             \<lparr>pending := [], idleTimer := Some (IDLE_TIME - n)\<rparr>"
    by blast
  from this [rule_format, OF z]
  have s2: "elapse 50 (handleStay (elapse 4500 (idleTimeout idleFired))) =
           (handleStay (elapse 4500 (idleTimeout idleFired)))
             \<lparr>pending := [], idleTimer := Some IDLE_TIME\<rparr>"
    by simp
  from h t expiry s1 show ?thesis
    by (simp only: r0 r8 r9 r99 s2) simp
qed

section \<open>The timeout switched off\<close>





text \<open>
  Why \<open>idleOff\<close> rules out a callback of "I'm Still Here" from a render that saw the
  setting off: run after the setting was switched on, it arms the idle timeout all the
  same, since it calls the \<open>resetIdleTimer\<close> of its own render.
\<close>

lemma stay_callback_of_earlier_render:
  "idleTimer (runTask (StayReset True False) s) = Some IDLE_TIME"
  by (simp add: resetIdleTimer_eq)




end
